theory Spec2Isabelle
  imports Main "HOL-Library.Sublist"
begin

section \<open>Paths: the parts of path/filepath the package calls (Unix rules)\<close>

text \<open>
  The package calls \<open>filepath.Dir\<close> and \<open>filepath.Join\<close>, which both end in
  \<open>filepath.Clean\<close>. They are modelled on strings with the separator \<open>/\<close> and no
  volume names. \<open>split_elems\<close> cuts a path at every separator and \<open>join_elems\<close> is
  \<open>strings.Join\<close> with that separator.
\<close>

fun split_elems :: "string \<Rightarrow> string list" where
  "split_elems [] = [[]]"
| "split_elems (c # cs) =
     (if c = CHR ''/'' then [] # split_elems cs
      else (case split_elems cs of [] \<Rightarrow> [[c]] | e # es \<Rightarrow> (c # e) # es))"

fun join_elems :: "string list \<Rightarrow> string" where
  "join_elems [] = []"
| "join_elems [e] = e"
| "join_elems (e # es) = e @ ''/'' @ join_elems es"

text \<open>
  The scan of \<open>Clean\<close> over the path elements, with the output buffer \<open>out\<close>: an empty
  element and \<open>.\<close> are dropped; \<open>..\<close> removes the last element written when that is a
  real one, is written out when the path is not rooted, and is dropped at the root;
  every other element is appended.
\<close>

fun clean_elems :: "bool \<Rightarrow> string list \<Rightarrow> string list \<Rightarrow> string list" where
  "clean_elems rooted out [] = out"
| "clean_elems rooted out (e # es) =
     (if e = [] then clean_elems rooted out es
      else if e = ''.'' then clean_elems rooted out es
      else if e = ''..'' then
        (if out \<noteq> [] \<and> last out \<noteq> ''..'' then clean_elems rooted (butlast out) es
         else if \<not> rooted then clean_elems rooted (out @ [''..'']) es
         else clean_elems rooted out es)
      else clean_elems rooted (out @ [e]) es)"

definition Clean :: "string \<Rightarrow> string" where
  "Clean path =
     (if path = [] then ''.''
      else let rooted = (hd path = CHR ''/'');
               out = clean_elems rooted [] (split_elems path)
           in if rooted then ''/'' @ join_elems out
              else if out = [] then ''.''
              else join_elems out)"

text \<open>\<open>dir_prefix\<close> is \<open>path[:i+1]\<close> for the index \<open>i\<close> of the last separator.\<close>

definition dir_prefix :: "string \<Rightarrow> string" where
  "dir_prefix path = rev (dropWhile (\<lambda>c. c \<noteq> CHR ''/'') (rev path))"

definition Dir :: "string \<Rightarrow> string" where
  "Dir path = Clean (dir_prefix path)"

definition Join :: "string list \<Rightarrow> string" where
  "Join elem =
     (case dropWhile (\<lambda>e. e = []) elem of
        [] \<Rightarrow> []
      | es \<Rightarrow> Clean (join_elems es))"

section \<open>Errors, the process environment and the file system\<close>

text \<open>
  Go errors as values. \<open>ErrorString\<close> is what \<open>fmt.Errorf\<close> builds without \<open>%w\<close>,
  \<open>WrapError\<close> what it builds with \<open>%w\<close> (the text before the verb, and the wrapped
  error). \<open>PathNotExist\<close> is the error of opening a path that does not exist, the only
  one \<open>os.IsNotExist\<close> accepts; \<open>ReadFailure\<close> is any other error of \<open>godotenv.Read\<close>
  (an I/O error or a parse error), by its message.
\<close>

datatype error =
    PathNotExist string
  | ReadFailure string
  | ErrorString string
  | WrapError string error

fun Unwrap :: "error \<Rightarrow> error option" where
  "Unwrap (WrapError m e) = Some e"
| "Unwrap _ = None"

fun os_IsNotExist :: "error \<Rightarrow> bool" where
  "os_IsNotExist (PathNotExist p) = True"
| "os_IsNotExist _ = False"

text \<open>
  What a path leads to, as \<open>os.Stat\<close> and \<open>godotenv.Read\<close> see it. A path with no
  entry leads nowhere and the system says so: opening it fails with the error
  \<open>os.IsNotExist\<close> accepts. Otherwise the path leads to a file that parses to a
  mapping (\<open>Parsed\<close>); or to something that is there but cannot be read or parsed,
  such as a directory, a file without read permission or malformed content
  (\<open>Broken\<close>, with the message of the failure); or it cannot be followed at all,
  because a component of it is not a directory, may not be searched, or its symbolic
  links loop (\<open>Unreachable\<close>, with the message): then \<open>os.Stat\<close> and opening both
  fail, with an error \<open>os.IsNotExist\<close> rejects.
\<close>

datatype fs_entry = Parsed "string \<rightharpoonup> string" | Broken string | Unreachable string

text \<open>
  Everything outside the program that it reads: the process environment, the file
  system by path, and the source file name \<open>runtime.Caller(0)\<close> reports.
\<close>

record World =
  environ :: "string \<rightharpoonup> string"
  files :: "string \<rightharpoonup> fs_entry"
  caller_file :: string

text \<open>Go's two-result lookups \<open>value, exists := m[key]\<close> and \<open>os.LookupEnv\<close>.\<close>

definition map_lookup :: "(string \<rightharpoonup> string) \<Rightarrow> string \<Rightarrow> string \<times> bool" where
  "map_lookup m key = (case m key of Some v \<Rightarrow> (v, True) | None \<Rightarrow> ([], False))"

definition os_LookupEnv :: "World \<Rightarrow> string \<Rightarrow> string \<times> bool" where
  "os_LookupEnv w key = map_lookup (environ w) key"

definition os_Getenv :: "World \<Rightarrow> string \<Rightarrow> string" where
  "os_Getenv w key = fst (os_LookupEnv w key)"

text \<open>
  \<open>os.Stat\<close> succeeds (\<open>err == nil\<close>) on a path that leads to something; the empty
  path never does.
\<close>

definition os_Stat :: "World \<Rightarrow> string \<Rightarrow> bool" where
  "os_Stat w path =
     (path \<noteq> [] \<and>
      (case files w path of
         None \<Rightarrow> False
       | Some (Parsed envs) \<Rightarrow> True
       | Some (Broken m) \<Rightarrow> True
       | Some (Unreachable m) \<Rightarrow> False))"

definition godotenv_Read :: "World \<Rightarrow> string \<Rightarrow> error + (string \<rightharpoonup> string)" where
  "godotenv_Read w path =
     (if path = [] then Inl (PathNotExist path)
      else case files w path of
             None \<Rightarrow> Inl (PathNotExist path)
           | Some (Broken m) \<Rightarrow> Inl (ReadFailure m)
           | Some (Unreachable m) \<Rightarrow> Inl (ReadFailure m)
           | Some (Parsed envs) \<Rightarrow> Inr envs)"

text \<open>\<open>strconv.FormatBool\<close> and \<open>strconv.ParseBool\<close> (\<open>None\<close> is the syntax error).\<close>

definition FormatBool :: "bool \<Rightarrow> string" where
  "FormatBool b = (if b then ''true'' else ''false'')"

definition ParseBool :: "string \<Rightarrow> bool option" where
  "ParseBool str =
     (if str \<in> set [''1'', ''t'', ''T'', ''TRUE'', ''true'', ''True''] then Some True
      else if str \<in> set [''0'', ''f'', ''F'', ''FALSE'', ''false'', ''False''] then Some False
      else None)"

section \<open>The configuration and its options\<close>

record Config =
  DatabaseURL :: string
  AuthServiceURL :: string
  Debug :: bool
  Port :: string
  EnvFile :: string
  GoogleClientID :: string
  GoogleClientSecret :: string

text \<open>\<open>&Config{}\<close>: every field at its zero value.\<close>

definition Config_zero :: Config where
  "Config_zero =
     \<lparr>DatabaseURL = [], AuthServiceURL = [], Debug = False, Port = [], EnvFile = [],
      GoogleClientID = [], GoogleClientSecret = []\<rparr>"

text \<open>An option is a function on the configuration it is given (\<open>func(*Config)\<close>).\<close>

type_synonym Option = "Config \<Rightarrow> Config"

definition WithDatabaseURL :: "string \<Rightarrow> Option" where
  "WithDatabaseURL url = (\<lambda>c. if url \<noteq> [] then c\<lparr>DatabaseURL := url\<rparr> else c)"

definition WithAuthServiceURL :: "string \<Rightarrow> Option" where
  "WithAuthServiceURL url = (\<lambda>c. if url \<noteq> [] then c\<lparr>AuthServiceURL := url\<rparr> else c)"

definition WithDebug :: "bool \<Rightarrow> Option" where
  "WithDebug debug = (\<lambda>c. c\<lparr>Debug := debug\<rparr>)"

definition WithPort :: "string \<Rightarrow> Option" where
  "WithPort port = (\<lambda>c. if port \<noteq> [] then c\<lparr>Port := port\<rparr> else c)"

definition WithEnvFile :: "string \<Rightarrow> Option" where
  "WithEnvFile file = (\<lambda>c. if file \<noteq> [] then c\<lparr>EnvFile := file\<rparr> else c)"

definition WithGoogleClientID :: "string \<Rightarrow> Option" where
  "WithGoogleClientID clientID =
     (\<lambda>c. if clientID \<noteq> [] then c\<lparr>GoogleClientID := clientID\<rparr> else c)"

definition WithGoogleClientSecret :: "string \<Rightarrow> Option" where
  "WithGoogleClientSecret clientSecret =
     (\<lambda>c. if clientSecret \<noteq> [] then c\<lparr>GoogleClientSecret := clientSecret\<rparr> else c)"

text \<open>The loop \<open>for _, opt := range opts { opt(c) }\<close> of \<open>NewConfig\<close>.\<close>

fun applyOptions :: "Option list \<Rightarrow> Config \<Rightarrow> Config" where
  "applyOptions [] c = c"
| "applyOptions (opt # opts) c = applyOptions opts (opt c)"

definition validate :: "Config \<Rightarrow> error option" where
  "validate c =
     (if DatabaseURL c = [] then Some (ErrorString ''DATABASE_URL is not set'')
      else if AuthServiceURL c = [] then Some (ErrorString ''AUTH_SERVICE_URL is not set'')
      else None)"

section \<open>Lookups with fallback\<close>

definition getEnvWithFallback ::
  "World \<Rightarrow> (string \<rightharpoonup> string) \<Rightarrow> string \<Rightarrow> string \<Rightarrow> string" where
  "getEnvWithFallback w envs key fallback =
     (let (value, exists) = map_lookup envs key in
      if exists \<and> value \<noteq> [] then value
      else let (value, exists) = os_LookupEnv w key in
           if exists \<and> value \<noteq> [] then value
           else fallback)"

text \<open>
  The functions that call \<open>log.Printf\<close> return the lines they log, in order, beside
  their result.
\<close>

definition getBoolEnvWithFallback ::
  "World \<Rightarrow> (string \<rightharpoonup> string) \<Rightarrow> string \<Rightarrow> bool \<Rightarrow> bool \<times> string list" where
  "getBoolEnvWithFallback w envs key fallback =
     (let strValue = getEnvWithFallback w envs key (FormatBool fallback) in
      case ParseBool strValue of
        None \<Rightarrow> (fallback, [''Warning: invalid boolean value for '' @ key @ '', using fallback''])
      | Some boolValue \<Rightarrow> (boolValue, []))"

section \<open>Finding and loading the file\<close>

subsection \<open>The upward walk ends\<close>

lemma split_elems_not_Nil: "split_elems s \<noteq> []"
  by (induction s) (auto split: list.splits)

lemma join_split_elems: "join_elems (split_elems s) = s"
proof (induction s)
  case Nil
  show ?case by simp
next
  case (Cons c cs)
  show ?case
  proof (cases "split_elems cs")
    case Nil
    then show ?thesis using split_elems_not_Nil by blast
  next
    case (Cons e es)
    with Cons.IH show ?thesis by (cases es) auto
  qed
qed

lemma length_join_elems:
  "length (join_elems es) = sum_list (map length es) + (length es - 1)"
  by (induction es rule: join_elems.induct) auto

lemma subseq_sum_length:
  "subseq xs ys \<Longrightarrow> sum_list (map length xs) \<le> sum_list (map length (ys :: string list))"
  by (induction rule: list_emb.induct) auto

lemma subseq_join_length:
  assumes "subseq xs ys"
  shows "length (join_elems xs) \<le> length (join_elems ys)"
proof -
  have "length xs \<le> length ys" using assms by (rule list_emb_length)
  with subseq_sum_length [OF assms] show ?thesis
    by (simp add: length_join_elems)
qed

lemma subseq_Cons_self: "subseq es (e # es)"
  by (rule list_emb_Cons) (rule subseq_order.order_refl)

lemma subseq_skip_app: "subseq (out @ es) (out @ e # es)"
  by (rule list_emb_append_mono [OF subseq_order.order_refl subseq_Cons_self])

lemma subseq_butlast_app: "subseq (butlast out @ es) (out @ e # es)"
proof -
  have "subseq (butlast out) out"
    by (rule prefix_imp_subseq) (rule prefixeq_butlast)
  then show ?thesis
    by (rule list_emb_append_mono [OF _ subseq_Cons_self])
qed

lemma clean_elems_step:
  "clean_elems r out (e # es) = clean_elems r out es
   \<or> clean_elems r out (e # es) = clean_elems r (butlast out) es
   \<or> clean_elems r out (e # es) = clean_elems r (out @ [e]) es"
  by simp

lemma clean_elems_subseq: "subseq (clean_elems r out es) (out @ es)"
proof (induction es arbitrary: out)
  case Nil
  show ?case by simp
next
  case (Cons e es)
  from clean_elems_step [of r out e es] show ?case
  proof (elim disjE)
    assume "clean_elems r out (e # es) = clean_elems r out es"
    then have "subseq (clean_elems r out (e # es)) (out @ es)"
      using Cons.IH [of out] by simp
    then show ?thesis
      using subseq_skip_app [of out es e] subseq_order.order_trans by blast
  next
    assume "clean_elems r out (e # es) = clean_elems r (butlast out) es"
    then have "subseq (clean_elems r out (e # es)) (butlast out @ es)"
      using Cons.IH [of "butlast out"] by simp
    then show ?thesis
      using subseq_butlast_app [of out es e] subseq_order.order_trans by blast
  next
    assume "clean_elems r out (e # es) = clean_elems r (out @ [e]) es"
    then have "subseq (clean_elems r out (e # es)) ((out @ [e]) @ es)"
      using Cons.IH [of "out @ [e]"] by simp
    then show ?thesis by simp
  qed
qed

lemma Clean_rooted:
  "Clean (CHR ''/'' # s) = ''/'' @ join_elems (clean_elems True [] (split_elems s))"
  by (simp add: Clean_def)

lemma length_Clean_le:
  assumes "x \<noteq> []"
  shows "length (Clean x) \<le> length x"
proof (cases "hd x = CHR ''/''")
  case True
  then obtain s where x: "x = CHR ''/'' # s" using assms by (cases x) auto
  have "length (join_elems (clean_elems True [] (split_elems s)))
          \<le> length (join_elems (split_elems s))"
    using clean_elems_subseq [of True "[]" "split_elems s"]
    by (intro subseq_join_length) simp
  then show ?thesis by (simp add: x Clean_rooted join_split_elems)
next
  case False
  let ?out = "clean_elems False [] (split_elems x)"
  have "length (join_elems ?out) \<le> length (join_elems (split_elems x))"
    using clean_elems_subseq [of False "[]" "split_elems x"]
    by (intro subseq_join_length) simp
  then have "length (join_elems ?out) \<le> length x" by (simp add: join_split_elems)
  moreover have "1 \<le> length x" using assms by (cases x) auto
  ultimately show ?thesis using False assms by (simp add: Clean_def Let_def)
qed

lemma split_elems_snoc_sep: "split_elems (y @ ''/'') = split_elems y @ [[]]"
  by (induction y) (auto split: list.splits simp: split_elems_not_Nil)

lemma clean_elems_append:
  "clean_elems r out (es @ fs) = clean_elems r (clean_elems r out es) fs"
  by (induction r out es rule: clean_elems.induct) auto

lemma Clean_snoc_sep:
  assumes "y \<noteq> []"
  shows "Clean (y @ ''/'') = Clean y"
  using assms by (simp add: Clean_def split_elems_snoc_sep clean_elems_append)

lemma dir_prefix_cases:
  "dir_prefix d = [] \<or> (\<exists>y. dir_prefix d = y @ ''/'')"
proof (cases "dropWhile (\<lambda>c. c \<noteq> CHR ''/'') (rev d)")
  case Nil
  then show ?thesis by (simp add: dir_prefix_def)
next
  case (Cons c cs)
  then have "c = CHR ''/''" using hd_dropWhile [of "\<lambda>c. c \<noteq> CHR ''/''" "rev d"] by auto
  with Cons show ?thesis by (simp add: dir_prefix_def)
qed

lemma dir_prefix_prefix: "\<exists>t. d = dir_prefix d @ t"
proof -
  have "rev d = takeWhile (\<lambda>c. c \<noteq> CHR ''/'') (rev d) @ dropWhile (\<lambda>c. c \<noteq> CHR ''/'') (rev d)"
    by simp
  then have "rev (rev d) = rev (takeWhile (\<lambda>c. c \<noteq> CHR ''/'') (rev d)
                                @ dropWhile (\<lambda>c. c \<noteq> CHR ''/'') (rev d))"
    by simp
  then have "d = rev (dropWhile (\<lambda>c. c \<noteq> CHR ''/'') (rev d))
                 @ rev (takeWhile (\<lambda>c. c \<noteq> CHR ''/'') (rev d))"
    by (simp only: rev_append rev_rev_ident)
  then show ?thesis unfolding dir_prefix_def by blast
qed

lemma Dir_shrinks:
  assumes "Dir d \<noteq> d"
  shows "Dir d = ''.'' \<or> length (Dir d) < length d"
proof -
  obtain t where t: "d = dir_prefix d @ t" using dir_prefix_prefix by blast
  from dir_prefix_cases [of d] show ?thesis
  proof
    assume "dir_prefix d = []"
    then show ?thesis by (simp add: Dir_def Clean_def)
  next
    assume "\<exists>y. dir_prefix d = y @ ''/''"
    then obtain y where y: "dir_prefix d = y @ ''/''" by blast
    show ?thesis
    proof (cases "y = []")
      case True
      with y have "Dir d = ''/''" by (simp add: Dir_def Clean_def)
      moreover from True y t have "d = ''/'' @ t" by simp
      ultimately show ?thesis using assms by (cases t) auto
    next
      case False
      then have "length (Clean y) \<le> length y" by (rule length_Clean_le)
      moreover have "Dir d = Clean y" using False y by (simp add: Dir_def Clean_snoc_sep)
      moreover have "length d = Suc (length y) + length t"
        by (subst t) (simp add: y)
      then have "length y < length d" by simp
      ultimately show ?thesis by simp
    qed
  qed
qed

definition dir_measure :: "string \<Rightarrow> nat" where
  "dir_measure d = (if d = ''.'' then 0 else Suc (length d))"

lemma Dir_dot: "Dir ''.'' = ''.''"
  by (simp add: Dir_def dir_prefix_def Clean_def)

lemma Dir_measure: "Dir d \<noteq> d \<Longrightarrow> dir_measure (Dir d) < dir_measure d"
  using Dir_shrinks [of d] Dir_dot by (auto simp: dir_measure_def)

subsection \<open>findEnvFilePath and loadEnv\<close>

text \<open>
  The loop of \<open>findEnvFilePath\<close>. Beside the path it returns, the model keeps the
  paths it handed to \<open>os.Stat\<close>, in order.
\<close>

function findEnvFilePath_loop :: "World \<Rightarrow> string \<Rightarrow> string \<times> string list" where
  "findEnvFilePath_loop w dir =
     (let envFilePath = Join [dir, ''.env''] in
      if os_Stat w envFilePath then (envFilePath, [envFilePath])
      else let parentDir = Dir dir in
           if parentDir = dir then ([], [envFilePath])
           else case findEnvFilePath_loop w parentDir of
                  (found, probes) \<Rightarrow> (found, envFilePath # probes))"
  by pat_completeness auto
termination
  by (relation "measure (\<lambda>(w, dir). dir_measure dir)") (auto simp: Dir_measure)

declare findEnvFilePath_loop.simps [simp del]

definition findEnvFilePath :: "World \<Rightarrow> string \<Rightarrow> string" where
  "findEnvFilePath w startDir = fst (findEnvFilePath_loop w startDir)"

text \<open>
  The first half of \<open>loadEnv\<close>: the path it goes on to read, from the hint, the
  variable \<open>ENV_FILE\<close> and the upward walk from the directory of the package's source.
\<close>

definition loadEnv_path :: "World \<Rightarrow> string \<Rightarrow> string" where
  "loadEnv_path w envFile =
     (if envFile = [] then
        (let envFile = os_Getenv w ''ENV_FILE'' in
         if envFile = [] then
           (let b = caller_file w;
                basepath = Dir b
            in findEnvFilePath w basepath)
         else envFile)
      else envFile)"

definition loadEnv :: "World \<Rightarrow> string \<Rightarrow> (error + (string \<rightharpoonup> string)) \<times> string list" where
  "loadEnv w envFile =
     (let envFile = loadEnv_path w envFile in
      case godotenv_Read w envFile of
        Inl err \<Rightarrow>
          if os_IsNotExist err then
            (Inr Map.empty,
             [''Warning: .env file not found at '' @ envFile
                @ '', using only OS environment variables''])
          else (Inl (WrapError ''error reading .env file: '' err), [])
      | Inr envs \<Rightarrow> (Inr envs, []))"

section \<open>NewConfig\<close>

text \<open>The six assignments of \<open>NewConfig\<close> that follow the load, in their order.\<close>

definition resolveFields :: "World \<Rightarrow> (string \<rightharpoonup> string) \<Rightarrow> Config \<Rightarrow> Config \<times> string list" where
  "resolveFields w envs c =
     (let c = c\<lparr>DatabaseURL := getEnvWithFallback w envs ''DATABASE_URL'' (DatabaseURL c)\<rparr>;
          c = c\<lparr>AuthServiceURL := getEnvWithFallback w envs ''AUTH_SERVICE_URL'' (AuthServiceURL c)\<rparr>;
          (debug, logged) = getBoolEnvWithFallback w envs ''DEBUG'' (Debug c);
          c = c\<lparr>Debug := debug\<rparr>;
          c = c\<lparr>Port := getEnvWithFallback w envs ''PORT'' (Port c)\<rparr>;
          c = c\<lparr>GoogleClientID := getEnvWithFallback w envs ''GOOGLE_CLIENT_ID'' (GoogleClientID c)\<rparr>;
          c = c\<lparr>GoogleClientSecret :=
                 getEnvWithFallback w envs ''GOOGLE_CLIENT_SECRET'' (GoogleClientSecret c)\<rparr>
      in (c, logged))"

definition NewConfig :: "World \<Rightarrow> Option list \<Rightarrow> (error + Config) \<times> string list" where
  "NewConfig w opts =
     (let c = applyOptions opts Config_zero in
      case loadEnv w (EnvFile c) of
        (Inl err, logged) \<Rightarrow> (Inl (WrapError ''failed to load environment: '' err), logged)
      | (Inr envs, logged) \<Rightarrow>
          (case resolveFields w envs c of
             (c, logged') \<Rightarrow>
               (case validate c of
                  Some err \<Rightarrow> (Inl err, logged @ logged')
                | None \<Rightarrow> (Inr c, logged @ logged'))))"

section \<open>What the specification names\<close>

subsection \<open>The precedence rule\<close>

text \<open>
  A source has a value for a key when it holds an entry for it that is not empty. The
  value of a string field is the file's, else the environment's, else the one the
  options left.
\<close>

definition non_empty :: "string option \<Rightarrow> bool" where
  "non_empty r = (case r of Some v \<Rightarrow> v \<noteq> [] | None \<Rightarrow> False)"

definition by_precedence ::
  "(string \<rightharpoonup> string) \<Rightarrow> (string \<rightharpoonup> string) \<Rightarrow> string \<Rightarrow> string \<Rightarrow> string" where
  "by_precedence fileMapping environment key override =
     (if non_empty (fileMapping key) then the (fileMapping key)
      else if non_empty (environment key) then the (environment key)
      else override)"

subsection \<open>Error kinds and log lines\<close>

text \<open>
  The two kinds of error the specification names, as the values the code builds for
  them: the message of \<open>validate\<close> for a key, and the wrapping \<open>loadEnv\<close> puts around
  the cause of a failed read.
\<close>

definition MissingRequiredFieldError :: "string \<Rightarrow> error" where
  "MissingRequiredFieldError key = ErrorString (key @ '' is not set'')"

definition ConfigLoadError :: "error \<Rightarrow> error" where
  "ConfigLoadError cause = WrapError ''error reading .env file: '' cause"

text \<open>
  The line \<open>getBoolEnvWithFallback\<close> logs for a key whose value is no boolean, and the
  line \<open>loadEnv\<close> logs when there is no file at the path it read.
\<close>

definition invalid_bool_warning :: "string \<Rightarrow> string" where
  "invalid_bool_warning key = ''Warning: invalid boolean value for '' @ key @ '', using fallback''"

definition missing_file_warning :: "string \<Rightarrow> string" where
  "missing_file_warning path =
     ''Warning: .env file not found at '' @ path @ '', using only OS environment variables''"

subsection \<open>The inputs of a resolution\<close>

text \<open>
  The seven environment variables the package looks up, and what it means for two
  states of the outside to agree on everything the package reads.
\<close>

definition config_variables :: "string list" where
  "config_variables =
     [''ENV_FILE'', ''DATABASE_URL'', ''AUTH_SERVICE_URL'', ''DEBUG'', ''PORT'',
      ''GOOGLE_CLIENT_ID'', ''GOOGLE_CLIENT_SECRET'']"

definition same_inputs :: "World \<Rightarrow> World \<Rightarrow> bool" where
  "same_inputs w w' =
     (files w = files w' \<and> caller_file w = caller_file w'
      \<and> (\<forall>key \<in> set config_variables. environ w key = environ w' key))"

subsection \<open>The upward search\<close>

text \<open>
  The directories the upward walk visits: the starting directory, then the parent of
  each, up to the first directory that is its own parent. \<open>env_in\<close> names the file
  \<open>.env\<close> in a directory, and the depth of a path is the number of its elements that
  name something.
\<close>

function ancestors :: "string \<Rightarrow> string list" where
  "ancestors dir = (if Dir dir = dir then [dir] else dir # ancestors (Dir dir))"
  by pat_completeness auto
termination
  by (relation "measure dir_measure") (auto simp: Dir_measure)

declare ancestors.simps [simp del]

definition env_in :: "string \<Rightarrow> string" where
  "env_in dir = Join [dir, ''.env'']"

definition depth :: "string \<Rightarrow> nat" where
  "depth path = length (filter (\<lambda>e. e \<noteq> [] \<and> e \<noteq> ''.'') (split_elems path))"

text \<open>
  The shape of a cleaned path: a list of elements without separators, none empty and
  none \<open>.\<close>, with \<open>..\<close> only at the front of a path that is not rooted; \<open>render\<close>
  writes such a list out the way \<open>Clean\<close> does.
\<close>

fun canon :: "bool \<Rightarrow> string list \<Rightarrow> bool" where
  "canon rooted [] = True"
| "canon rooted (e # es) =
     (e \<noteq> [] \<and> e \<noteq> ''.''
      \<and> (if e = ''..'' then \<not> rooted \<and> canon rooted es else canon True es))"

definition slashfree :: "string list \<Rightarrow> bool" where
  "slashfree es = (\<forall>e \<in> set es. CHR ''/'' \<notin> set e)"

definition render :: "bool \<Rightarrow> string list \<Rightarrow> string" where
  "render rooted out =
     (if rooted then ''/'' @ join_elems out
      else if out = [] then ''.''
      else join_elems out)"

section \<open>Scenarios\<close>

text \<open>
  A deployment with a file at \<open>/srv/app/.env\<close> that sets \<open>DATABASE_URL\<close> and leaves
  \<open>PORT\<close> empty, and an environment that sets both required variables; and the same
  with one more variable that the package never reads.
\<close>

definition world_file_env :: World where
  "world_file_env =
     \<lparr>environ = [''DATABASE_URL'' \<mapsto> ''postgres://env'', ''AUTH_SERVICE_URL'' \<mapsto> ''http://env''],
      files = [''/srv/app/.env'' \<mapsto> Parsed [''DATABASE_URL'' \<mapsto> ''postgres://file'', ''PORT'' \<mapsto> []]],
      caller_file = ''/go/pkg/configutil/configutil.go''\<rparr>"

definition config_file_env :: Config where
  "config_file_env =
     \<lparr>DatabaseURL = ''postgres://file'', AuthServiceURL = ''http://env'', Debug = False,
      Port = ''8080'', EnvFile = ''/srv/app/.env'', GoogleClientID = [],
      GoogleClientSecret = []\<rparr>"

definition world_file_env_noise :: World where
  "world_file_env_noise =
     world_file_env\<lparr>environ := (environ world_file_env)(''HOME'' \<mapsto> ''/root'')\<rparr>"

text \<open>A host with no \<open>.env\<close> file anywhere and none of the package's variables set.\<close>

definition world_bare :: World where
  "world_bare =
     \<lparr>environ = [''HOME'' \<mapsto> ''/root''], files = Map.empty,
      caller_file = ''/go/pkg/configutil/configutil.go''\<rparr>"

text \<open>
  A deployment whose file, found by the upward walk from the vendored package, sets
  \<open>DEBUG\<close> to a text that is no boolean, while the environment sets it to \<open>true\<close>.
\<close>

definition world_bad_debug :: World where
  "world_bad_debug =
     \<lparr>environ = [''DEBUG'' \<mapsto> ''true''],
      files = [''/srv/app/.env'' \<mapsto>
                 Parsed [''DEBUG'' \<mapsto> ''notabool'', ''DATABASE_URL'' \<mapsto> ''postgres://a'',
                         ''AUTH_SERVICE_URL'' \<mapsto> ''http://b'']],
      caller_file = ''/srv/app/vendor/configutil/configutil.go''\<rparr>"

definition config_bad_debug :: Config where
  "config_bad_debug =
     \<lparr>DatabaseURL = ''postgres://a'', AuthServiceURL = ''http://b'', Debug = False,
      Port = [], EnvFile = [], GoogleClientID = [], GoogleClientSecret = []\<rparr>"

definition debug_file_mapping :: "string \<rightharpoonup> string" where
  "debug_file_mapping =
     [''DEBUG'' \<mapsto> ''notabool'', ''DATABASE_URL'' \<mapsto> ''postgres://a'',
      ''AUTH_SERVICE_URL'' \<mapsto> ''http://b'']"

text \<open>A host whose \<open>ENV_FILE\<close> names a file that does not parse.\<close>

definition world_broken :: World where
  "world_broken =
     \<lparr>environ = [''DATABASE_URL'' \<mapsto> ''postgres://env'', ''AUTH_SERVICE_URL'' \<mapsto> ''http://env'',
                 ''ENV_FILE'' \<mapsto> ''/etc/app.env''],
      files = [''/etc/app.env'' \<mapsto> Broken ''unexpected character in variable name''],
      caller_file = ''/go/pkg/configutil/configutil.go''\<rparr>"

text \<open>
  A host whose \<open>ENV_FILE\<close> names \<open>.env\<close> below a regular file: the path cannot be
  followed, and the system reports that \<open>file.txt\<close> is not a directory.
\<close>

definition world_not_dir :: World where
  "world_not_dir =
     \<lparr>environ = [''DATABASE_URL'' \<mapsto> ''postgres://env'', ''AUTH_SERVICE_URL'' \<mapsto> ''http://env'',
                 ''ENV_FILE'' \<mapsto> ''/srv/v/file.txt/.env''],
      files = [''/srv/v/file.txt'' \<mapsto> Parsed Map.empty,
               ''/srv/v/file.txt/.env'' \<mapsto>
                  Unreachable ''open /srv/v/file.txt/.env: not a directory''],
      caller_file = ''/go/pkg/configutil/configutil.go''\<rparr>"


section \<open>How NewConfig decomposes\<close>

lemma getEnvWithFallback_precedence:
  "getEnvWithFallback w envs key fallback = by_precedence envs (environ w) key fallback"
  by (simp add: getEnvWithFallback_def by_precedence_def non_empty_def map_lookup_def
      os_LookupEnv_def split: option.splits)

lemma resolveFields_fields:
  "DatabaseURL (fst (resolveFields w envs c)) = getEnvWithFallback w envs ''DATABASE_URL'' (DatabaseURL c)"
  "AuthServiceURL (fst (resolveFields w envs c)) = getEnvWithFallback w envs ''AUTH_SERVICE_URL'' (AuthServiceURL c)"
  "Debug (fst (resolveFields w envs c)) = fst (getBoolEnvWithFallback w envs ''DEBUG'' (Debug c))"
  "Port (fst (resolveFields w envs c)) = getEnvWithFallback w envs ''PORT'' (Port c)"
  "EnvFile (fst (resolveFields w envs c)) = EnvFile c"
  "GoogleClientID (fst (resolveFields w envs c)) = getEnvWithFallback w envs ''GOOGLE_CLIENT_ID'' (GoogleClientID c)"
  "GoogleClientSecret (fst (resolveFields w envs c)) = getEnvWithFallback w envs ''GOOGLE_CLIENT_SECRET'' (GoogleClientSecret c)"
  "snd (resolveFields w envs c) = snd (getBoolEnvWithFallback w envs ''DEBUG'' (Debug c))"
  by (simp_all add: resolveFields_def Let_def split: prod.splits)

lemma NewConfig_cases:
  "NewConfig w opts =
     (case loadEnv w (EnvFile (applyOptions opts Config_zero)) of
        (Inl err, logged) \<Rightarrow> (Inl (WrapError ''failed to load environment: '' err), logged)
      | (Inr envs, logged) \<Rightarrow>
          (let r = resolveFields w envs (applyOptions opts Config_zero) in
           case validate (fst r) of
             Some err \<Rightarrow> (Inl err, logged @ snd r)
           | None \<Rightarrow> (Inr (fst r), logged @ snd r)))"
  by (simp add: NewConfig_def Let_def split: prod.splits sum.splits option.splits)

lemma NewConfig_Inr:
  assumes "NewConfig w opts = (Inr c, logged)"
  obtains envs lg where
    "loadEnv w (EnvFile (applyOptions opts Config_zero)) = (Inr envs, lg)"
    "c = fst (resolveFields w envs (applyOptions opts Config_zero))"
    "validate c = None"
    "logged = lg @ snd (resolveFields w envs (applyOptions opts Config_zero))"
  using assms unfolding NewConfig_cases
  by (auto simp: Let_def split: prod.splits sum.splits option.splits)

lemma NewConfig_world_file_env:
  "NewConfig world_file_env
     [WithEnvFile ''/srv/app/.env'', WithDatabaseURL ''postgres://override'', WithPort ''8080'']
   = (Inr config_file_env, [])"
  by (simp add: NewConfig_def world_file_env_def config_file_env_def loadEnv_def
      loadEnv_path_def godotenv_Read_def resolveFields_def getEnvWithFallback_def
      getBoolEnvWithFallback_def map_lookup_def os_LookupEnv_def FormatBool_def ParseBool_def
      validate_def WithEnvFile_def WithDatabaseURL_def WithPort_def Config_zero_def)

section \<open>Properties of the configuration\<close>

text \<open>
  C2. Whatever the options, the file and the environment are: when \<open>NewConfig\<close>
  returns a configuration and no error, its \<open>DatabaseURL\<close> and its \<open>AuthServiceURL\<close>
  are not empty.
\<close>

theorem validated_fields_non_empty:
  assumes "NewConfig w opts = (Inr c, logged)"
  shows "DatabaseURL c \<noteq> [] \<and> AuthServiceURL c \<noteq> []"
proof -
  from assms have "validate c = None" by (rule NewConfig_Inr)
  then show ?thesis by (simp add: validate_def split: if_splits)
qed

theorem validated_fields_non_empty_witness:
  "NewConfig world_file_env
     [WithEnvFile ''/srv/app/.env'', WithDatabaseURL ''postgres://override'', WithPort ''8080'']
   = (Inr config_file_env, [])
   \<and> DatabaseURL config_file_env \<noteq> [] \<and> AuthServiceURL config_file_env \<noteq> []"
  using validated_fields_non_empty [OF NewConfig_world_file_env] NewConfig_world_file_env
  by simp

lemma by_precedence_file:
  "envs key = Some v \<Longrightarrow> v \<noteq> [] \<Longrightarrow> by_precedence envs environment key override = v"
  by (simp add: by_precedence_def non_empty_def)

lemma loadEnv_world_file_env:
  "fst (loadEnv world_file_env ''/srv/app/.env'')
     = Inr [''DATABASE_URL'' \<mapsto> ''postgres://file'', ''PORT'' \<mapsto> []]"
  by (simp add: loadEnv_def loadEnv_path_def godotenv_Read_def world_file_env_def)

lemma validate_Some:
  "validate c = Some e \<longleftrightarrow>
     (DatabaseURL c = [] \<and> e = MissingRequiredFieldError ''DATABASE_URL'')
     \<or> (DatabaseURL c \<noteq> [] \<and> AuthServiceURL c = []
         \<and> e = MissingRequiredFieldError ''AUTH_SERVICE_URL'')"
  by (auto simp: validate_def MissingRequiredFieldError_def)

lemma loadEnv_error_shape:
  "fst (loadEnv w hint) = Inl e \<Longrightarrow> \<exists>cause. e = ConfigLoadError cause"
  by (auto simp: loadEnv_def Let_def ConfigLoadError_def split: sum.splits if_splits)

lemma NewConfig_Inl:
  "fst (NewConfig w opts) = Inl e \<longleftrightarrow>
     (\<exists>err. fst (loadEnv w (EnvFile (applyOptions opts Config_zero))) = Inl err
        \<and> e = WrapError ''failed to load environment: '' err)
     \<or> (\<exists>envs. fst (loadEnv w (EnvFile (applyOptions opts Config_zero))) = Inr envs
        \<and> validate (fst (resolveFields w envs (applyOptions opts Config_zero))) = Some e)"
  unfolding NewConfig_cases
  by (auto simp: Let_def split: prod.splits sum.splits option.splits)

lemma MissingRequiredFieldError_not_wrapped:
  "MissingRequiredFieldError key \<noteq> WrapError m e"
  by (simp add: MissingRequiredFieldError_def)

lemma MissingRequiredFieldError_inject:
  "MissingRequiredFieldError k = MissingRequiredFieldError k' \<longleftrightarrow> k = k'"
  by (simp add: MissingRequiredFieldError_def)

lemma NewConfig_missing_field:
  "fst (NewConfig w opts) = Inl (MissingRequiredFieldError key) \<longleftrightarrow>
     (\<exists>envs. fst (loadEnv w (EnvFile (applyOptions opts Config_zero))) = Inr envs
        \<and> validate (fst (resolveFields w envs (applyOptions opts Config_zero)))
            = Some (MissingRequiredFieldError key))"
  by (simp add: NewConfig_Inl MissingRequiredFieldError_not_wrapped)

text \<open>
  C1. Each string field of the configuration \<open>NewConfig\<close> returns (\<open>DatabaseURL\<close>,
  \<open>AuthServiceURL\<close>, \<open>Port\<close>, \<open>GoogleClientID\<close>, \<open>GoogleClientSecret\<close>) holds the
  file mapping's entry for the field's key when that entry is present and not empty,
  otherwise the environment variable of that key when it is present and not empty,
  otherwise the value the options left. So a file entry that is not empty wins over
  the environment and over an option.
\<close>

theorem string_fields_by_precedence:
  assumes load: "fst (loadEnv w (EnvFile (applyOptions opts Config_zero))) = Inr envs"
    and new: "fst (NewConfig w opts) = Inr c"
  shows "DatabaseURL c =
           by_precedence envs (environ w) ''DATABASE_URL''
             (DatabaseURL (applyOptions opts Config_zero))
       \<and> AuthServiceURL c =
           by_precedence envs (environ w) ''AUTH_SERVICE_URL''
             (AuthServiceURL (applyOptions opts Config_zero))
       \<and> Port c =
           by_precedence envs (environ w) ''PORT'' (Port (applyOptions opts Config_zero))
       \<and> GoogleClientID c =
           by_precedence envs (environ w) ''GOOGLE_CLIENT_ID''
             (GoogleClientID (applyOptions opts Config_zero))
       \<and> GoogleClientSecret c =
           by_precedence envs (environ w) ''GOOGLE_CLIENT_SECRET''
             (GoogleClientSecret (applyOptions opts Config_zero))
       \<and> (\<forall>key override v. envs key = Some v \<and> v \<noteq> []
            \<longrightarrow> by_precedence envs (environ w) key override = v)"
proof -
  obtain logged where "NewConfig w opts = (Inr c, logged)"
    using new by (cases "NewConfig w opts") simp
  then obtain envs' lg where
    l: "loadEnv w (EnvFile (applyOptions opts Config_zero)) = (Inr envs', lg)" and
    c: "c = fst (resolveFields w envs' (applyOptions opts Config_zero))"
    by (rule NewConfig_Inr)
  from l load have "envs' = envs" by simp
  with c have "c = fst (resolveFields w envs (applyOptions opts Config_zero))" by simp
  then show ?thesis
    by (simp add: resolveFields_fields getEnvWithFallback_precedence by_precedence_file)
qed

theorem string_fields_by_precedence_witness:
  "fst (NewConfig world_file_env
     [WithEnvFile ''/srv/app/.env'', WithDatabaseURL ''postgres://override'', WithPort ''8080''])
     = Inr config_file_env
   \<and> environ world_file_env ''DATABASE_URL'' = Some ''postgres://env''
   \<and> DatabaseURL config_file_env = ''postgres://file''
   \<and> AuthServiceURL config_file_env = ''http://env''
   \<and> Port config_file_env = ''8080''"
proof -
  let ?opts = "[WithEnvFile ''/srv/app/.env'', WithDatabaseURL ''postgres://override'',
                WithPort ''8080'']"
  have hint: "EnvFile (applyOptions ?opts Config_zero) = ''/srv/app/.env''"
    by (simp add: WithEnvFile_def WithDatabaseURL_def WithPort_def Config_zero_def)
  have new: "fst (NewConfig world_file_env ?opts) = Inr config_file_env"
    by (simp add: NewConfig_world_file_env)
  have load: "fst (loadEnv world_file_env (EnvFile (applyOptions ?opts Config_zero)))
     = Inr [''DATABASE_URL'' \<mapsto> ''postgres://file'', ''PORT'' \<mapsto> []]"
    by (simp only: hint loadEnv_world_file_env)
  from string_fields_by_precedence [OF load new] new show ?thesis
    by (simp add: world_file_env_def config_file_env_def)
qed


text \<open>
  C3. \<open>NewConfig\<close> fails with the missing-field error for \<open>DATABASE_URL\<close> exactly when
  the load succeeded and \<open>DatabaseURL\<close> resolved to the empty string, and with the one
  for \<open>AUTH_SERVICE_URL\<close> exactly when the load succeeded, \<open>DatabaseURL\<close> resolved to
  a value and \<open>AuthServiceURL\<close> to the empty string: \<open>DatabaseURL\<close> is checked first.
  With no options, no file and \<open>DATABASE_URL\<close> unset the error names \<open>DATABASE_URL\<close>.
  A missing-field error is never a load error, and every error of \<open>NewConfig\<close> is of
  exactly one of the two kinds.
\<close>

theorem missing_required_field_error:
  "(fst (NewConfig w opts) = Inl (MissingRequiredFieldError ''DATABASE_URL'') \<longleftrightarrow>
      (\<exists>envs. fst (loadEnv w (EnvFile (applyOptions opts Config_zero))) = Inr envs
         \<and> DatabaseURL (fst (resolveFields w envs (applyOptions opts Config_zero))) = []))
   \<and> (fst (NewConfig w opts) = Inl (MissingRequiredFieldError ''AUTH_SERVICE_URL'') \<longleftrightarrow>
      (\<exists>envs. fst (loadEnv w (EnvFile (applyOptions opts Config_zero))) = Inr envs
         \<and> DatabaseURL (fst (resolveFields w envs (applyOptions opts Config_zero))) \<noteq> []
         \<and> AuthServiceURL (fst (resolveFields w envs (applyOptions opts Config_zero))) = []))
   \<and> ((\<exists>key. fst (NewConfig w opts) = Inl (MissingRequiredFieldError key)) \<longleftrightarrow>
      (\<exists>envs. fst (loadEnv w (EnvFile (applyOptions opts Config_zero))) = Inr envs
         \<and> (DatabaseURL (fst (resolveFields w envs (applyOptions opts Config_zero))) = []
            \<or> AuthServiceURL (fst (resolveFields w envs (applyOptions opts Config_zero))) = [])))
   \<and> (files w (loadEnv_path w []) = None \<and> environ w ''DATABASE_URL'' = None
        \<longrightarrow> fst (NewConfig w []) = Inl (MissingRequiredFieldError ''DATABASE_URL''))
   \<and> (\<forall>key cause. MissingRequiredFieldError key \<noteq> ConfigLoadError cause
        \<and> MissingRequiredFieldError key
            \<noteq> WrapError ''failed to load environment: '' (ConfigLoadError cause))
   \<and> (\<forall>e. fst (NewConfig w opts) = Inl e \<longrightarrow>
        (\<exists>key. e = MissingRequiredFieldError key)
        \<noteq> (\<exists>cause. e = WrapError ''failed to load environment: '' (ConfigLoadError cause)))"
  (is "?db \<and> ?auth \<and> ?any \<and> ?bare \<and> ?distinct \<and> ?kinds")
proof -
  have db: ?db
    by (auto simp: NewConfig_missing_field validate_Some MissingRequiredFieldError_inject)
  have auth: ?auth
    by (auto simp: NewConfig_missing_field validate_Some MissingRequiredFieldError_inject)
  have any: ?any
    by (auto simp: NewConfig_missing_field validate_Some MissingRequiredFieldError_inject)
  have bare: ?bare
  proof (intro impI, elim conjE)
    assume nofile: "files w (loadEnv_path w []) = None"
      and noenv: "environ w ''DATABASE_URL'' = None"
    have "fst (loadEnv w []) = Inr Map.empty"
      using nofile by (simp add: loadEnv_def Let_def godotenv_Read_def)
    moreover have "DatabaseURL (fst (resolveFields w Map.empty Config_zero)) = []"
      using noenv
      by (simp add: resolveFields_fields getEnvWithFallback_precedence by_precedence_def
          non_empty_def Config_zero_def)
    ultimately show "fst (NewConfig w []) = Inl (MissingRequiredFieldError ''DATABASE_URL'')"
      by (simp add: NewConfig_missing_field validate_Some Config_zero_def)
  qed
  have distinct: ?distinct
    by (simp add: MissingRequiredFieldError_def ConfigLoadError_def)
  have kinds: ?kinds
  proof (intro allI impI)
    fix e assume "fst (NewConfig w opts) = Inl e"
    then consider (load) err where
        "fst (loadEnv w (EnvFile (applyOptions opts Config_zero))) = Inl err"
        "e = WrapError ''failed to load environment: '' err"
      | (val) envs where
        "validate (fst (resolveFields w envs (applyOptions opts Config_zero))) = Some e"
      unfolding NewConfig_Inl by blast
    then show "(\<exists>key. e = MissingRequiredFieldError key)
        \<noteq> (\<exists>cause. e = WrapError ''failed to load environment: '' (ConfigLoadError cause))"
    proof cases
      case load
      then show ?thesis
        using loadEnv_error_shape [OF load(1)]
        by (auto simp: MissingRequiredFieldError_def)
    next
      case val
      then show ?thesis
        by (auto simp: validate_Some MissingRequiredFieldError_def)
    qed
  qed
  from db auth any bare distinct kinds show ?thesis by blast
qed


theorem missing_required_field_error_witness:
  "files world_bare (loadEnv_path world_bare []) = None
   \<and> environ world_bare ''DATABASE_URL'' = None
   \<and> fst (NewConfig world_bare []) = Inl (MissingRequiredFieldError ''DATABASE_URL'')
   \<and> fst (NewConfig world_bare []) = Inl (ErrorString ''DATABASE_URL is not set'')"
proof -
  have nofile: "files world_bare (loadEnv_path world_bare []) = None"
    by (simp add: world_bare_def)
  have noenv: "environ world_bare ''DATABASE_URL'' = None"
    by (simp add: world_bare_def)
  from missing_required_field_error [of world_bare "[]"] nofile noenv
  have "fst (NewConfig world_bare []) = Inl (MissingRequiredFieldError ''DATABASE_URL'')"
    by blast
  with nofile noenv show ?thesis by (simp add: MissingRequiredFieldError_def)
qed

lemma applyOptions_append:
  "applyOptions (opts @ opts') c = applyOptions opts' (applyOptions opts c)"
  by (induction opts arbitrary: c) simp_all

lemma applyOptions_frame:
  assumes "\<forall>opt \<in> set opts. \<forall>c. f (opt c) = f c"
  shows "f (applyOptions opts c) = f c"
  using assms by (induction opts arbitrary: c) simp_all

lemma setters_as_updates:
  "WithDatabaseURL v c = c\<lparr>DatabaseURL := if v = [] then DatabaseURL c else v\<rparr>"
  "WithAuthServiceURL v c = c\<lparr>AuthServiceURL := if v = [] then AuthServiceURL c else v\<rparr>"
  "WithDebug b c = c\<lparr>Debug := b\<rparr>"
  "WithPort v c = c\<lparr>Port := if v = [] then Port c else v\<rparr>"
  "WithEnvFile v c = c\<lparr>EnvFile := if v = [] then EnvFile c else v\<rparr>"
  "WithGoogleClientID v c = c\<lparr>GoogleClientID := if v = [] then GoogleClientID c else v\<rparr>"
  "WithGoogleClientSecret v c =
     c\<lparr>GoogleClientSecret := if v = [] then GoogleClientSecret c else v\<rparr>"
  by (simp_all add: WithDatabaseURL_def WithAuthServiceURL_def WithDebug_def WithPort_def
      WithEnvFile_def WithGoogleClientID_def WithGoogleClientSecret_def)

lemma later_option_wins:
  assumes "\<forall>opt \<in> set opts'. \<forall>c. f (opt c) = f c" and "\<forall>c. f (opt c) = v"
  shows "f (applyOptions (opts @ opt # opts') c) = v"
  using assms by (simp add: applyOptions_append applyOptions_frame)

lemma ParseBool_FormatBool: "ParseBool (FormatBool b) = Some b"
  by (simp add: ParseBool_def FormatBool_def)

lemma getBool_unparseable:
  assumes "ParseBool (getEnvWithFallback w envs key (FormatBool fallback)) = None"
  shows "getBoolEnvWithFallback w envs key fallback = (fallback, [invalid_bool_warning key])"
  using assms by (simp add: getBoolEnvWithFallback_def invalid_bool_warning_def)

lemma getEnv_file:
  "envs key = Some s \<Longrightarrow> s \<noteq> [] \<Longrightarrow> getEnvWithFallback w envs key fb = s"
  by (simp add: getEnvWithFallback_precedence by_precedence_def non_empty_def)

lemma getEnv_environ:
  "\<not> non_empty (envs key) \<Longrightarrow> environ w key = Some s \<Longrightarrow> s \<noteq> []
     \<Longrightarrow> getEnvWithFallback w envs key fb = s"
  by (simp add: getEnvWithFallback_precedence by_precedence_def non_empty_def)

lemma getEnv_none:
  "\<not> non_empty (envs key) \<Longrightarrow> \<not> non_empty (environ w key)
     \<Longrightarrow> getEnvWithFallback w envs key fb = fb"
  by (simp add: getEnvWithFallback_precedence by_precedence_def)

lemma NewConfig_Inr_iff:
  "fst (NewConfig w opts) = Inr c \<longleftrightarrow>
     (\<exists>envs. fst (loadEnv w (EnvFile (applyOptions opts Config_zero))) = Inr envs
        \<and> c = fst (resolveFields w envs (applyOptions opts Config_zero))
        \<and> validate c = None)"
  unfolding NewConfig_cases
  by (auto simp: Let_def split: prod.splits sum.splits option.splits)

lemma path_bad_debug: "loadEnv_path world_bad_debug [] = ''/srv/app/.env''"
  by code_simp

lemma NewConfig_world_bad_debug:
  "NewConfig world_bad_debug [] =
     (Inr config_bad_debug, [invalid_bool_warning ''DEBUG''])"
  by (simp add: NewConfig_def world_bad_debug_def config_bad_debug_def loadEnv_def
      path_bad_debug [unfolded world_bad_debug_def]
      godotenv_Read_def resolveFields_def getEnvWithFallback_def
      getBoolEnvWithFallback_def map_lookup_def os_LookupEnv_def FormatBool_def ParseBool_def
      validate_def Config_zero_def invalid_bool_warning_def)


lemma loadEnv_world_bad_debug:
  "fst (loadEnv world_bad_debug []) = Inr debug_file_mapping"
  by (simp add: loadEnv_def path_bad_debug godotenv_Read_def debug_file_mapping_def)
     (simp add: world_bad_debug_def)

text \<open>
  C5. The options are applied in the order given: applying a list is applying its
  front part and then its rest. Each setter writes its own field and no other: a
  setter of a string field writes its argument when that is not empty and leaves the
  configuration as it was when it is empty; \<open>WithDebug\<close> always writes. So the last
  setter of a field with a non-empty argument decides the field's value before the
  file and the environment are consulted, as long as no later option touches it.
\<close>

theorem options_in_order_own_field:
  "applyOptions (opts @ opts') c = applyOptions opts' (applyOptions opts c)
   \<and> WithDatabaseURL v c = c\<lparr>DatabaseURL := if v = [] then DatabaseURL c else v\<rparr>
   \<and> WithAuthServiceURL v c = c\<lparr>AuthServiceURL := if v = [] then AuthServiceURL c else v\<rparr>
   \<and> WithDebug b c = c\<lparr>Debug := b\<rparr>
   \<and> WithPort v c = c\<lparr>Port := if v = [] then Port c else v\<rparr>
   \<and> WithEnvFile v c = c\<lparr>EnvFile := if v = [] then EnvFile c else v\<rparr>
   \<and> WithGoogleClientID v c = c\<lparr>GoogleClientID := if v = [] then GoogleClientID c else v\<rparr>
   \<and> WithGoogleClientSecret v c =
       c\<lparr>GoogleClientSecret := if v = [] then GoogleClientSecret c else v\<rparr>
   \<and> (v \<noteq> [] \<and> (\<forall>opt \<in> set opts'. \<forall>c. DatabaseURL (opt c) = DatabaseURL c)
        \<longrightarrow> DatabaseURL (applyOptions (opts @ WithDatabaseURL v # opts') c) = v)
   \<and> (v \<noteq> [] \<and> (\<forall>opt \<in> set opts'. \<forall>c. AuthServiceURL (opt c) = AuthServiceURL c)
        \<longrightarrow> AuthServiceURL (applyOptions (opts @ WithAuthServiceURL v # opts') c) = v)
   \<and> (v \<noteq> [] \<and> (\<forall>opt \<in> set opts'. \<forall>c. Port (opt c) = Port c)
        \<longrightarrow> Port (applyOptions (opts @ WithPort v # opts') c) = v)
   \<and> (v \<noteq> [] \<and> (\<forall>opt \<in> set opts'. \<forall>c. EnvFile (opt c) = EnvFile c)
        \<longrightarrow> EnvFile (applyOptions (opts @ WithEnvFile v # opts') c) = v)
   \<and> (v \<noteq> [] \<and> (\<forall>opt \<in> set opts'. \<forall>c. GoogleClientID (opt c) = GoogleClientID c)
        \<longrightarrow> GoogleClientID (applyOptions (opts @ WithGoogleClientID v # opts') c) = v)
   \<and> (v \<noteq> [] \<and> (\<forall>opt \<in> set opts'. \<forall>c. GoogleClientSecret (opt c) = GoogleClientSecret c)
        \<longrightarrow> GoogleClientSecret (applyOptions (opts @ WithGoogleClientSecret v # opts') c) = v)
   \<and> ((\<forall>opt \<in> set opts'. \<forall>c. Debug (opt c) = Debug c)
        \<longrightarrow> Debug (applyOptions (opts @ WithDebug b # opts') c) = b)"
proof (intro conjI impI)
  show "applyOptions (opts @ opts') c = applyOptions opts' (applyOptions opts c)"
    by (rule applyOptions_append)
qed (simp_all only: setters_as_updates,
     (rule later_option_wins, simp, simp add: setters_as_updates)+)

theorem options_in_order_own_field_witness:
  "DatabaseURL (applyOptions
      [WithDatabaseURL ''postgres://a'', WithPort ''80'', WithDatabaseURL ''postgres://b'',
       WithDatabaseURL [], WithDebug True] Config_zero) = ''postgres://b''"
proof -
  have frame: "\<forall>opt \<in> set [WithDatabaseURL [], WithDebug True].
      \<forall>c. DatabaseURL (opt c) = DatabaseURL c"
    by (simp add: setters_as_updates)
  have "''postgres://b'' \<noteq> []" by simp
  with frame
    options_in_order_own_field [of "[WithDatabaseURL ''postgres://a'', WithPort ''80'']"
      "[WithDatabaseURL [], WithDebug True]" Config_zero "''postgres://b''"]
  show ?thesis by simp
qed


text \<open>
  C6. For a boolean field, a candidate from the file or from the environment that
  \<open>ParseBool\<close> rejects is dropped: the field keeps the fallback, one warning is
  logged, and nothing fails. With no candidate at all the formatted fallback parses
  back to the fallback and nothing is logged. In \<open>NewConfig\<close> the field \<open>Debug\<close>
  keeps the value the options left; with no options and a file that sets
  \<open>DEBUG=notabool\<close> beside the two required keys, \<open>NewConfig\<close> succeeds with
  \<open>Debug\<close> false.
\<close>

theorem invalid_debug_keeps_fallback:
  "(envs key = Some s \<and> s \<noteq> [] \<and> ParseBool s = None
      \<longrightarrow> getBoolEnvWithFallback w envs key fallback = (fallback, [invalid_bool_warning key]))
   \<and> (\<not> non_empty (envs key) \<and> environ w key = Some s \<and> s \<noteq> [] \<and> ParseBool s = None
      \<longrightarrow> getBoolEnvWithFallback w envs key fallback = (fallback, [invalid_bool_warning key]))
   \<and> (\<not> non_empty (envs key) \<and> \<not> non_empty (environ w key)
      \<longrightarrow> getBoolEnvWithFallback w envs key fallback = (fallback, []))
   \<and> ParseBool (FormatBool fallback) = Some fallback
   \<and> (ParseBool (getEnvWithFallback w envs ''DEBUG'' (FormatBool (Debug c))) = None
      \<longrightarrow> Debug (fst (resolveFields w envs c)) = Debug c
        \<and> snd (resolveFields w envs c) = [invalid_bool_warning ''DEBUG''])
   \<and> (fst (loadEnv w (EnvFile (applyOptions opts Config_zero))) = Inr envs
        \<and> envs ''DEBUG'' = Some s \<and> s \<noteq> [] \<and> ParseBool s = None
        \<and> fst (NewConfig w opts) = Inr c'
      \<longrightarrow> Debug c' = Debug (applyOptions opts Config_zero)
        \<and> invalid_bool_warning ''DEBUG'' \<in> set (snd (NewConfig w opts)))
   \<and> (fst (loadEnv w []) = Inr envs
        \<and> envs ''DEBUG'' = Some s \<and> s \<noteq> [] \<and> ParseBool s = None
        \<and> envs ''DATABASE_URL'' = Some db \<and> db \<noteq> []
        \<and> envs ''AUTH_SERVICE_URL'' = Some auth \<and> auth \<noteq> []
      \<longrightarrow> (\<exists>c'. fst (NewConfig w []) = Inr c' \<and> Debug c' = False))"
  (is "?fromfile \<and> ?env \<and> ?none \<and> ?round \<and> ?resolve \<and> ?new \<and> ?zero")
proof -
  have fromfile: ?fromfile
    by (auto simp: getEnv_file intro!: getBool_unparseable)
  have env: ?env
    by (auto simp: getEnv_environ intro!: getBool_unparseable)
  have none: ?none
    by (simp add: getBoolEnvWithFallback_def getEnv_none ParseBool_FormatBool)
  have round: ?round by (rule ParseBool_FormatBool)
  have resolve: ?resolve
    by (simp add: resolveFields_fields getBool_unparseable)
  have new: ?new
  proof (intro impI, elim conjE)
    assume load: "fst (loadEnv w (EnvFile (applyOptions opts Config_zero))) = Inr envs"
      and s: "envs ''DEBUG'' = Some s" "s \<noteq> []" "ParseBool s = None"
      and ok: "fst (NewConfig w opts) = Inr c'"
    let ?c0 = "applyOptions opts Config_zero"
    have bad: "ParseBool (getEnvWithFallback w envs ''DEBUG'' (FormatBool (Debug ?c0))) = None"
      using s by (simp add: getEnv_file)
    from ok load have c': "c' = fst (resolveFields w envs ?c0)"
      by (auto simp: NewConfig_Inr_iff)
    have "snd (NewConfig w opts)
            = snd (loadEnv w (EnvFile ?c0)) @ snd (resolveFields w envs ?c0)"
      using load ok unfolding NewConfig_cases
      by (auto simp: Let_def split: prod.splits sum.splits option.splits)
    then show "Debug c' = Debug ?c0 \<and> invalid_bool_warning ''DEBUG'' \<in> set (snd (NewConfig w opts))"
      using c' bad by (simp add: resolveFields_fields getBool_unparseable)
  qed
  have zero: ?zero
  proof (intro impI, elim conjE)
    assume load: "fst (loadEnv w []) = Inr envs"
      and s: "envs ''DEBUG'' = Some s" "s \<noteq> []" "ParseBool s = None"
      and db: "envs ''DATABASE_URL'' = Some db" "db \<noteq> []"
      and auth: "envs ''AUTH_SERVICE_URL'' = Some auth" "auth \<noteq> []"
    let ?c = "fst (resolveFields w envs Config_zero)"
    have bad: "ParseBool (getEnvWithFallback w envs ''DEBUG'' (FormatBool False)) = None"
      using s by (simp add: getEnv_file)
    have "validate ?c = None"
      using db auth by (simp add: validate_def resolveFields_fields getEnv_file)
    then have "fst (NewConfig w []) = Inr ?c"
      using load by (simp add: NewConfig_Inr_iff Config_zero_def)
    moreover have "Debug ?c = False"
      using bad by (simp add: resolveFields_fields getBool_unparseable Config_zero_def)
    ultimately show "\<exists>c'. fst (NewConfig w []) = Inr c' \<and> Debug c' = False" by blast
  qed
  from fromfile env none round resolve new zero show ?thesis by blast
qed

theorem invalid_debug_keeps_fallback_witness:
  "fst (loadEnv world_bad_debug []) = Inr debug_file_mapping
   \<and> debug_file_mapping ''DEBUG'' = Some ''notabool''
   \<and> ParseBool ''notabool'' = None
   \<and> environ world_bad_debug ''DEBUG'' = Some ''true''
   \<and> fst (NewConfig world_bad_debug []) = Inr config_bad_debug
   \<and> Debug config_bad_debug = False
   \<and> invalid_bool_warning ''DEBUG'' \<in> set (snd (NewConfig world_bad_debug []))"
proof -
  have load: "fst (loadEnv world_bad_debug (EnvFile (applyOptions [] Config_zero)))
                = Inr debug_file_mapping"
    by (simp add: Config_zero_def loadEnv_world_bad_debug)
  have s: "debug_file_mapping ''DEBUG'' = Some ''notabool''" "''notabool'' \<noteq> []"
    "ParseBool ''notabool'' = None"
    by (simp_all add: debug_file_mapping_def ParseBool_def)
  have new: "fst (NewConfig world_bad_debug []) = Inr config_bad_debug"
    by (simp add: NewConfig_world_bad_debug)
  from invalid_debug_keeps_fallback
         [where envs = debug_file_mapping and s = "''notabool''" and w = world_bad_debug
            and opts = "[]" and c' = config_bad_debug]
       load s new
  have "Debug config_bad_debug = Debug (applyOptions [] Config_zero)
        \<and> invalid_bool_warning ''DEBUG'' \<in> set (snd (NewConfig world_bad_debug []))"
    by blast
  with load s new show ?thesis
    by (simp add: Config_zero_def loadEnv_world_bad_debug world_bad_debug_def)
qed

text \<open>
  C10. The configuration has a seventh field, \<open>EnvFile\<close>. Of the package's setters
  only \<open>WithEnvFile\<close> writes it, and only for a non-empty argument; options that leave
  it alone leave it empty. \<open>NewConfig\<close> hands it to \<open>loadEnv\<close> as the path hint, and
  the resolution of the fields from the file and the environment never changes it:
  the configuration \<open>NewConfig\<close> returns has the \<open>EnvFile\<close> the options left.
\<close>

theorem EnvFile_only_from_options:
  "EnvFile (WithDatabaseURL v c) = EnvFile c
   \<and> EnvFile (WithAuthServiceURL v c) = EnvFile c
   \<and> EnvFile (WithDebug b c) = EnvFile c
   \<and> EnvFile (WithPort v c) = EnvFile c
   \<and> EnvFile (WithGoogleClientID v c) = EnvFile c
   \<and> EnvFile (WithGoogleClientSecret v c) = EnvFile c
   \<and> EnvFile (WithEnvFile v c) = (if v = [] then EnvFile c else v)
   \<and> ((\<forall>opt \<in> set opts. \<forall>c. EnvFile (opt c) = EnvFile c)
        \<longrightarrow> EnvFile (applyOptions opts Config_zero) = [])
   \<and> EnvFile (fst (resolveFields w envs c)) = EnvFile c
   \<and> (\<forall>err. fst (loadEnv w (EnvFile (applyOptions opts Config_zero))) = Inl err
        \<longrightarrow> fst (NewConfig w opts) = Inl (WrapError ''failed to load environment: '' err))
   \<and> (\<forall>c'. fst (NewConfig w opts) = Inr c'
        \<longrightarrow> (\<exists>envs. fst (loadEnv w (EnvFile (applyOptions opts Config_zero))) = Inr envs
               \<and> c' = fst (resolveFields w envs (applyOptions opts Config_zero)))
            \<and> EnvFile c' = EnvFile (applyOptions opts Config_zero))"
  (is "?a \<and> ?b \<and> ?c \<and> ?d \<and> ?e \<and> ?f \<and> ?g \<and> ?only \<and> ?res \<and> ?hint \<and> ?kept")
proof -
  have setters: "?a" "?b" "?c" "?d" "?e" "?f" "?g"
    by (simp_all add: setters_as_updates)
  have only: ?only
  proof
    assume "\<forall>opt \<in> set opts. \<forall>c. EnvFile (opt c) = EnvFile c"
    then have "EnvFile (applyOptions opts Config_zero) = EnvFile Config_zero"
      by (rule applyOptions_frame)
    then show "EnvFile (applyOptions opts Config_zero) = []" by (simp add: Config_zero_def)
  qed
  have res: ?res by (rule resolveFields_fields)
  have hint: ?hint by (simp add: NewConfig_Inl)
  have kept: ?kept by (auto simp: NewConfig_Inr_iff resolveFields_fields)
  from setters only res hint kept show ?thesis by blast
qed

theorem EnvFile_only_from_options_witness:
  "fst (NewConfig world_file_env
     [WithEnvFile ''/srv/app/.env'', WithDatabaseURL ''postgres://override'', WithPort ''8080''])
     = Inr config_file_env
   \<and> EnvFile config_file_env = ''/srv/app/.env''
   \<and> EnvFile (applyOptions [WithDatabaseURL ''postgres://override'', WithPort ''8080'']
        Config_zero) = []"
proof -
  let ?opts = "[WithEnvFile ''/srv/app/.env'', WithDatabaseURL ''postgres://override'',
                WithPort ''8080'']"
  have new: "fst (NewConfig world_file_env ?opts) = Inr config_file_env"
    by (simp add: NewConfig_world_file_env)
  have frame: "\<forall>opt \<in> set [WithDatabaseURL ''postgres://override'', WithPort ''8080''].
      \<forall>c. EnvFile (opt c) = EnvFile c"
    by (simp add: setters_as_updates)
  from EnvFile_only_from_options [where w = world_file_env and opts = ?opts] new
  have kept: "EnvFile config_file_env = EnvFile (applyOptions ?opts Config_zero)"
    by blast
  from EnvFile_only_from_options
         [where opts = "[WithDatabaseURL ''postgres://override'', WithPort ''8080'']"] frame
  have none: "EnvFile (applyOptions [WithDatabaseURL ''postgres://override'', WithPort ''8080'']
        Config_zero) = []"
    by blast
  from new kept none show ?thesis
    by (simp add: setters_as_updates Config_zero_def)
qed

lemma godotenv_Read_cases:
  "godotenv_Read w p =
     (if p = [] \<or> files w p = None then Inl (PathNotExist p)
      else case the (files w p) of
             Broken m \<Rightarrow> Inl (ReadFailure m)
           | Unreachable m \<Rightarrow> Inl (ReadFailure m)
           | Parsed envs \<Rightarrow> Inr envs)"
  by (auto simp: godotenv_Read_def split: option.splits fs_entry.splits)

lemma loadEnv_missing:
  assumes "loadEnv_path w hint = [] \<or> files w (loadEnv_path w hint) = None"
  shows "loadEnv w hint = (Inr Map.empty, [missing_file_warning (loadEnv_path w hint)])"
  using assms by (auto simp: loadEnv_def godotenv_Read_cases missing_file_warning_def)

lemma loadEnv_broken:
  assumes "loadEnv_path w hint \<noteq> []"
    "files w (loadEnv_path w hint) = Some (Broken m)
     \<or> files w (loadEnv_path w hint) = Some (Unreachable m)"
  shows "loadEnv w hint = (Inl (ConfigLoadError (ReadFailure m)), [])"
  using assms by (auto simp: loadEnv_def godotenv_Read_cases ConfigLoadError_def)

lemma loadEnv_parsed:
  assumes "loadEnv_path w hint \<noteq> []" "files w (loadEnv_path w hint) = Some (Parsed envs)"
  shows "loadEnv w hint = (Inr envs, [])"
  using assms by (simp add: loadEnv_def godotenv_Read_cases)

lemma loadEnv_Inl_iff:
  "fst (loadEnv w hint) = Inl e \<longleftrightarrow>
     (\<exists>m. loadEnv_path w hint \<noteq> []
        \<and> (files w (loadEnv_path w hint) = Some (Broken m)
           \<or> files w (loadEnv_path w hint) = Some (Unreachable m))
        \<and> e = ConfigLoadError (ReadFailure m))"
proof (cases "loadEnv_path w hint = [] \<or> files w (loadEnv_path w hint) = None")
  case True
  then show ?thesis using loadEnv_missing [OF True] by auto
next
  case False
  then obtain entry where entry: "files w (loadEnv_path w hint) = Some entry" by auto
  show ?thesis
  proof (cases entry)
    case (Parsed envs)
    with False entry show ?thesis using loadEnv_parsed [of w hint envs] by auto
  next
    case (Broken m)
    with False entry show ?thesis using loadEnv_broken [of w hint m] by auto
  next
    case (Unreachable m)
    with False entry show ?thesis using loadEnv_broken [of w hint m] by auto
  qed
qed

lemma loadEnv_Inl_read:
  "fst (loadEnv w hint) = Inl e \<longleftrightarrow>
     (\<exists>err. godotenv_Read w (loadEnv_path w hint) = Inl err \<and> \<not> os_IsNotExist err
        \<and> e = ConfigLoadError err)"
  by (cases "godotenv_Read w (loadEnv_path w hint)")
     (auto simp: loadEnv_def ConfigLoadError_def Let_def)

lemma os_Stat_cases:
  "os_Stat w p \<longleftrightarrow>
     p \<noteq> [] \<and> ((\<exists>envs. files w p = Some (Parsed envs)) \<or> (\<exists>m. files w p = Some (Broken m)))"
  by (auto simp: os_Stat_def split: option.splits fs_entry.splits)

lemma path_broken: "loadEnv_path world_broken [] = ''/etc/app.env''"
  by (simp add: loadEnv_path_def os_Getenv_def os_LookupEnv_def map_lookup_def world_broken_def)

lemma path_not_dir: "loadEnv_path world_not_dir [] = ''/srv/v/file.txt/.env''"
  by (simp add: loadEnv_path_def os_Getenv_def os_LookupEnv_def map_lookup_def world_not_dir_def)

text \<open>
  C4. \<open>loadEnv\<close> fails exactly when reading the path it resolved fails with an error
  other than the one \<open>os.IsNotExist\<close> accepts: when something is there that cannot be
  read or parsed, and also when the path cannot be followed at all, for instance
  because a component of it is a regular file. The error wraps the cause of the
  failed read. When the resolved path is empty or the system reports that nothing
  exists there, \<open>loadEnv\<close> returns the empty mapping and logs one warning. In
  \<open>NewConfig\<close>: a path reported as not existing is never a load error, the result is
  the one validation gives on the fields resolved from the environment and the
  options alone; every other failed read makes \<open>NewConfig\<close> fail, with the load error
  wrapped once more. Among the paths \<open>os.Stat\<close> accepts, \<open>loadEnv\<close> fails exactly on
  those that cannot be read or parsed.
\<close>

theorem load_fails_unless_not_exist:
  "(fst (loadEnv w hint) = Inl e \<longleftrightarrow>
      (\<exists>err. godotenv_Read w (loadEnv_path w hint) = Inl err \<and> \<not> os_IsNotExist err
         \<and> e = ConfigLoadError err))
   \<and> (fst (loadEnv w hint) = Inl e \<longleftrightarrow>
      (\<exists>m. loadEnv_path w hint \<noteq> []
         \<and> (files w (loadEnv_path w hint) = Some (Broken m)
            \<or> files w (loadEnv_path w hint) = Some (Unreachable m))
         \<and> e = ConfigLoadError (ReadFailure m)))
   \<and> (os_Stat w (loadEnv_path w hint) \<and> fst (loadEnv w hint) = Inl e \<longleftrightarrow>
      (\<exists>m. loadEnv_path w hint \<noteq> [] \<and> files w (loadEnv_path w hint) = Some (Broken m)
         \<and> e = ConfigLoadError (ReadFailure m)))
   \<and> (\<forall>cause. Unwrap (ConfigLoadError cause) = Some cause)
   \<and> (loadEnv_path w hint = [] \<or> files w (loadEnv_path w hint) = None
        \<longrightarrow> loadEnv w hint = (Inr Map.empty, [missing_file_warning (loadEnv_path w hint)]))
   \<and> (loadEnv_path w hint \<noteq> [] \<and> files w (loadEnv_path w hint) = Some (Parsed envs)
        \<longrightarrow> loadEnv w hint = (Inr envs, []))
   \<and> (loadEnv_path w (EnvFile (applyOptions opts Config_zero)) = []
        \<or> files w (loadEnv_path w (EnvFile (applyOptions opts Config_zero))) = None
        \<longrightarrow> (\<forall>err. fst (NewConfig w opts) \<noteq> Inl (WrapError ''failed to load environment: '' err))
          \<and> fst (NewConfig w opts) =
              (case validate (fst (resolveFields w Map.empty (applyOptions opts Config_zero))) of
                 Some err \<Rightarrow> Inl err
               | None \<Rightarrow> Inr (fst (resolveFields w Map.empty (applyOptions opts Config_zero)))))
   \<and> (loadEnv_path w (EnvFile (applyOptions opts Config_zero)) \<noteq> []
        \<and> (files w (loadEnv_path w (EnvFile (applyOptions opts Config_zero))) = Some (Broken m)
           \<or> files w (loadEnv_path w (EnvFile (applyOptions opts Config_zero)))
               = Some (Unreachable m))
        \<longrightarrow> NewConfig w opts =
              (Inl (WrapError ''failed to load environment: '' (ConfigLoadError (ReadFailure m))),
               []))"
  (is "?code \<and> ?fails \<and> ?there \<and> ?wraps \<and> ?missing \<and> ?parsed \<and> ?new_missing \<and> ?new_broken")
proof -
  have code: ?code by (rule loadEnv_Inl_read)
  have fails: ?fails by (rule loadEnv_Inl_iff)
  have there: ?there unfolding loadEnv_Inl_iff os_Stat_cases by auto
  have wraps: ?wraps by (simp add: ConfigLoadError_def)
  have missing: ?missing using loadEnv_missing by blast
  have parsed: ?parsed using loadEnv_parsed by blast
  have new_missing: ?new_missing
  proof
    assume "loadEnv_path w (EnvFile (applyOptions opts Config_zero)) = []
        \<or> files w (loadEnv_path w (EnvFile (applyOptions opts Config_zero))) = None"
    then have l: "loadEnv w (EnvFile (applyOptions opts Config_zero))
        = (Inr Map.empty,
           [missing_file_warning (loadEnv_path w (EnvFile (applyOptions opts Config_zero)))])"
      by (rule loadEnv_missing)
    have eq: "fst (NewConfig w opts) =
              (case validate (fst (resolveFields w Map.empty (applyOptions opts Config_zero))) of
                 Some err \<Rightarrow> Inl err
               | None \<Rightarrow> Inr (fst (resolveFields w Map.empty (applyOptions opts Config_zero))))"
      unfolding NewConfig_cases l by (simp add: Let_def split: option.splits)
    have "\<forall>err. fst (NewConfig w opts) \<noteq> Inl (WrapError ''failed to load environment: '' err)"
      unfolding eq
      by (auto simp: validate_Some MissingRequiredFieldError_not_wrapped split: option.splits)
    with eq show "(\<forall>err. fst (NewConfig w opts) \<noteq> Inl (WrapError ''failed to load environment: '' err))
          \<and> fst (NewConfig w opts) =
              (case validate (fst (resolveFields w Map.empty (applyOptions opts Config_zero))) of
                 Some err \<Rightarrow> Inl err
               | None \<Rightarrow> Inr (fst (resolveFields w Map.empty (applyOptions opts Config_zero))))"
      by blast
  qed
  have new_broken: ?new_broken
  proof (intro impI, elim conjE)
    assume "loadEnv_path w (EnvFile (applyOptions opts Config_zero)) \<noteq> []"
      and "files w (loadEnv_path w (EnvFile (applyOptions opts Config_zero))) = Some (Broken m)
           \<or> files w (loadEnv_path w (EnvFile (applyOptions opts Config_zero)))
               = Some (Unreachable m)"
    then have "loadEnv w (EnvFile (applyOptions opts Config_zero))
        = (Inl (ConfigLoadError (ReadFailure m)), [])"
      by (rule loadEnv_broken)
    then show "NewConfig w opts =
              (Inl (WrapError ''failed to load environment: '' (ConfigLoadError (ReadFailure m))),
               [])"
      unfolding NewConfig_cases by simp
  qed
  from code fails there wraps missing parsed new_missing new_broken show ?thesis by blast
qed

theorem load_fails_unless_not_exist_witness:
  "loadEnv_path world_broken (EnvFile (applyOptions [] Config_zero)) = ''/etc/app.env''
   \<and> files world_broken ''/etc/app.env'' = Some (Broken ''unexpected character in variable name'')
   \<and> NewConfig world_broken [] =
       (Inl (WrapError ''failed to load environment: ''
              (WrapError ''error reading .env file: ''
                (ReadFailure ''unexpected character in variable name''))), [])
   \<and> files world_not_dir (loadEnv_path world_not_dir (EnvFile (applyOptions [] Config_zero)))
       = Some (Unreachable ''open /srv/v/file.txt/.env: not a directory'')
   \<and> NewConfig world_not_dir [] =
       (Inl (WrapError ''failed to load environment: ''
              (WrapError ''error reading .env file: ''
                (ReadFailure ''open /srv/v/file.txt/.env: not a directory''))), [])
   \<and> loadEnv_path world_bare (EnvFile (applyOptions [WithDebug True] Config_zero)) = []
   \<and> loadEnv world_bare [] = (Inr Map.empty, [missing_file_warning []])"
proof -
  have p: "loadEnv_path world_broken (EnvFile (applyOptions [] Config_zero)) = ''/etc/app.env''"
    by (simp add: Config_zero_def path_broken)
  have f: "files world_broken ''/etc/app.env''
             = Some (Broken ''unexpected character in variable name'')"
    by (simp add: world_broken_def)
  have p': "loadEnv_path world_not_dir (EnvFile (applyOptions [] Config_zero))
              = ''/srv/v/file.txt/.env''"
    by (simp add: Config_zero_def path_not_dir)
  have f': "files world_not_dir (loadEnv_path world_not_dir (EnvFile (applyOptions [] Config_zero)))
       = Some (Unreachable ''open /srv/v/file.txt/.env: not a directory'')"
    unfolding p' by (simp add: world_not_dir_def)
  have q: "loadEnv_path world_bare [] = []" by code_simp
  from load_fails_unless_not_exist
         [where w = world_broken and opts = "[]"
            and m = "''unexpected character in variable name''"] p f
  have broken: "NewConfig world_broken [] =
       (Inl (WrapError ''failed to load environment: ''
              (ConfigLoadError (ReadFailure ''unexpected character in variable name''))), [])"
    by simp
  from load_fails_unless_not_exist
         [where w = world_not_dir and opts = "[]"
            and m = "''open /srv/v/file.txt/.env: not a directory''"] p' f'
  have not_dir: "NewConfig world_not_dir [] =
       (Inl (WrapError ''failed to load environment: ''
              (ConfigLoadError (ReadFailure ''open /srv/v/file.txt/.env: not a directory''))), [])"
    by simp
  from load_fails_unless_not_exist [where w = world_bare and hint = "[]"] q
  have bare: "loadEnv world_bare [] = (Inr Map.empty, [missing_file_warning []])"
    by simp
  from p f p' f' q broken not_dir bare show ?thesis
    by (simp add: ConfigLoadError_def WithDebug_def Config_zero_def)
qed


text \<open>
  Without the restriction to paths reported as not existing the statement fails:
  with \<open>ENV_FILE\<close> naming \<open>.env\<close> below a regular file, nothing exists at the path
  (\<open>os.Stat\<close> fails too), and still \<open>loadEnv\<close> fails and \<open>NewConfig\<close> aborts.
\<close>

theorem missing_file_aborts_counterexample:
  "loadEnv_path world_not_dir [] = ''/srv/v/file.txt/.env''
   \<and> \<not> os_Stat world_not_dir ''/srv/v/file.txt/.env''
   \<and> fst (loadEnv world_not_dir [])
       = Inl (ConfigLoadError (ReadFailure ''open /srv/v/file.txt/.env: not a directory''))
   \<and> fst (NewConfig world_not_dir [])
       = Inl (WrapError ''failed to load environment: ''
               (ConfigLoadError (ReadFailure ''open /srv/v/file.txt/.env: not a directory'')))"
proof -
  have p: "loadEnv_path world_not_dir [] = ''/srv/v/file.txt/.env''" by (rule path_not_dir)
  have f: "files world_not_dir ''/srv/v/file.txt/.env''
             = Some (Unreachable ''open /srv/v/file.txt/.env: not a directory'')"
    by (simp add: world_not_dir_def)
  have s: "\<not> os_Stat world_not_dir ''/srv/v/file.txt/.env''"
    by (simp add: os_Stat_def f)
  have l: "loadEnv world_not_dir []
       = (Inl (ConfigLoadError (ReadFailure ''open /srv/v/file.txt/.env: not a directory'')), [])"
    by (rule loadEnv_broken) (simp_all add: p f)
  then have n: "fst (NewConfig world_not_dir [])
       = Inl (WrapError ''failed to load environment: ''
               (ConfigLoadError (ReadFailure ''open /srv/v/file.txt/.env: not a directory'')))"
    unfolding NewConfig_cases by (simp add: Config_zero_def)
  from p s l n show ?thesis by simp
qed

lemma findEnvFilePath_loop_files:
  assumes "files w = files w'"
  shows "findEnvFilePath_loop w dir = findEnvFilePath_loop w' dir"
  using assms
proof (induction w dir rule: findEnvFilePath_loop.induct)
  case (1 w dir)
  have stat: "os_Stat w (Join [dir, ''.env'']) = os_Stat w' (Join [dir, ''.env''])"
    using "1.prems" by (simp add: os_Stat_def)
  show ?case
  proof (cases "os_Stat w (Join [dir, ''.env'']) \<or> Dir dir = dir")
    case True
    then show ?thesis
      using stat
      by (subst findEnvFilePath_loop.simps, subst (2) findEnvFilePath_loop.simps)
         (auto simp: Let_def)
  next
    case False
    then have "findEnvFilePath_loop w (Dir dir) = findEnvFilePath_loop w' (Dir dir)"
      using "1.IH" "1.prems" by simp
    then show ?thesis
      using False stat
      by (subst findEnvFilePath_loop.simps, subst (2) findEnvFilePath_loop.simps)
         (simp add: Let_def)
  qed
qed

lemma getEnvWithFallback_same:
  assumes "environ w key = environ w' key"
  shows "getEnvWithFallback w envs key fb = getEnvWithFallback w' envs key fb"
  using assms by (simp add: getEnvWithFallback_precedence by_precedence_def)

lemma loadEnv_path_same:
  assumes "same_inputs w w'"
  shows "loadEnv_path w hint = loadEnv_path w' hint"
proof -
  from assms have "environ w ''ENV_FILE'' = environ w' ''ENV_FILE''"
    by (simp add: same_inputs_def config_variables_def)
  then have "os_Getenv w ''ENV_FILE'' = os_Getenv w' ''ENV_FILE''"
    by (simp add: os_Getenv_def os_LookupEnv_def map_lookup_def)
  moreover have "findEnvFilePath w (Dir (caller_file w)) = findEnvFilePath w' (Dir (caller_file w'))"
    using assms findEnvFilePath_loop_files [of w w']
    by (simp add: same_inputs_def findEnvFilePath_def)
  ultimately show ?thesis by (simp add: loadEnv_path_def Let_def)
qed

lemma loadEnv_same:
  assumes "same_inputs w w'"
  shows "loadEnv w hint = loadEnv w' hint"
proof -
  from assms have "files w = files w'" by (simp add: same_inputs_def)
  then have "godotenv_Read w p = godotenv_Read w' p" for p
    by (simp add: godotenv_Read_def)
  then show ?thesis
    using loadEnv_path_same [OF assms] by (simp add: loadEnv_def)
qed

lemma resolveFields_same:
  assumes "same_inputs w w'"
  shows "resolveFields w envs c = resolveFields w' envs c"
proof -
  from assms have "environ w key = environ w' key" if "key \<in> set config_variables" for key
    using that by (simp add: same_inputs_def)
  then have "getEnvWithFallback w envs key fb = getEnvWithFallback w' envs key fb"
    if "key \<in> set config_variables" for key fb
    using that by (intro getEnvWithFallback_same) simp
  then show ?thesis
    by (simp add: resolveFields_def getBoolEnvWithFallback_def config_variables_def)
qed

text \<open>
  C7. \<open>NewConfig\<close> is a function of its options and of what it reads from outside:
  the file system, the location of the package's source, and seven environment
  variables. Two calls with the same options in states that agree on these return
  the same configuration or the same error, and log the same lines; in particular
  two calls with identical inputs do.
\<close>

theorem NewConfig_deterministic:
  "same_inputs w w' \<longrightarrow> NewConfig w opts = NewConfig w' opts"
proof
  assume same: "same_inputs w w'"
  have l: "loadEnv w = loadEnv w'"
    using same by (intro ext loadEnv_same)
  have r: "resolveFields w = resolveFields w'"
    using same by (intro ext resolveFields_same)
  show "NewConfig w opts = NewConfig w' opts"
    unfolding NewConfig_def l r by (rule refl)
qed

theorem NewConfig_deterministic_witness:
  "same_inputs world_file_env world_file_env_noise
   \<and> environ world_file_env ''HOME'' \<noteq> environ world_file_env_noise ''HOME''
   \<and> NewConfig world_file_env_noise
       [WithEnvFile ''/srv/app/.env'', WithDatabaseURL ''postgres://override'', WithPort ''8080'']
     = (Inr config_file_env, [])"
proof -
  have same: "same_inputs world_file_env world_file_env_noise"
    by (simp add: same_inputs_def world_file_env_noise_def config_variables_def)
  have "environ world_file_env ''HOME'' \<noteq> environ world_file_env_noise ''HOME''"
    by (simp add: world_file_env_noise_def world_file_env_def)
  with same NewConfig_deterministic [of world_file_env world_file_env_noise
      "[WithEnvFile ''/srv/app/.env'', WithDatabaseURL ''postgres://override'', WithPort ''8080'']"]
    NewConfig_world_file_env
  show ?thesis by simp
qed

section \<open>Cleaned paths and the directories above them\<close>

lemma split_elems_sep_append:
  "split_elems (a @ ''/'' @ b) = split_elems a @ split_elems b"
  by (induction a) (auto split: list.splits simp: split_elems_not_Nil)

lemma split_elems_no_sep: "CHR ''/'' \<notin> set e \<Longrightarrow> split_elems e = [e]"
  by (induction e) auto

lemma split_elems_slashfree: "slashfree (split_elems s)"
  unfolding slashfree_def
  by (induction s) (auto split: list.splits)

lemma split_join_elems:
  "es \<noteq> [] \<Longrightarrow> slashfree es \<Longrightarrow> split_elems (join_elems es) = es"
proof (induction es rule: join_elems.induct)
  case 1
  then show ?case by simp
next
  case (2 e)
  then show ?case by (simp add: slashfree_def split_elems_no_sep)
next
  case (3 e v va)
  then have "split_elems (join_elems (v # va)) = v # va" by (simp add: slashfree_def)
  moreover have "split_elems e = [e]" using 3 by (simp add: slashfree_def split_elems_no_sep)
  ultimately show ?case
    using split_elems_sep_append [of e "join_elems (v # va)"] by simp
qed

lemma canon_True_no_dotdot: "canon True xs \<Longrightarrow> ''..'' \<notin> set xs"
  by (induction xs) (auto split: if_splits)

lemma canon_True_imp: "canon True xs \<Longrightarrow> canon r xs"
  by (induction xs) (auto split: if_splits)

lemma canon_snoc_real:
  "canon r xs \<Longrightarrow> e \<noteq> [] \<Longrightarrow> e \<noteq> ''.'' \<Longrightarrow> e \<noteq> ''..'' \<Longrightarrow> canon r (xs @ [e])"
  by (induction xs arbitrary: r) (auto split: if_splits)

lemma canon_snoc_dotdot:
  "canon False xs \<Longrightarrow> xs = [] \<or> last xs = ''..'' \<Longrightarrow> canon False (xs @ [''..''])"
proof (induction xs)
  case Nil
  then show ?case by simp
next
  case (Cons e es)
  show ?case
  proof (cases "e = ''..''")
    case True
    with Cons show ?thesis by (auto split: if_splits)
  next
    case False
    with Cons.prems have c: "canon True es" and l: "last (e # es) = ''..''" by auto
    from l False have ne: "es \<noteq> []" by auto
    with l have "last es = ''..''" by simp
    with last_in_set [OF ne] have "''..'' \<in> set es" by simp
    with canon_True_no_dotdot [OF c] show ?thesis by simp
  qed
qed

lemma canon_butlast: "canon r xs \<Longrightarrow> canon r (butlast xs)"
  by (induction xs arbitrary: r) (auto split: if_splits)

lemma canon_real: "canon r xs \<Longrightarrow> e \<in> set xs \<Longrightarrow> e \<noteq> [] \<and> e \<noteq> ''.''"
  by (induction xs arbitrary: r) (auto split: if_splits)

lemma canon_dotdot_prefix:
  "canon r (out @ ''..'' # es) \<Longrightarrow> \<not> r \<and> (\<forall>x \<in> set out. x = ''..'')"
proof (induction out)
  case Nil
  then show ?case by simp
next
  case (Cons x out)
  show ?case
  proof (cases "x = ''..''")
    case True
    with Cons show ?thesis by auto
  next
    case False
    with Cons.prems have "canon True (out @ ''..'' # es)" by auto
    then have False using canon_True_no_dotdot by fastforce
    then show ?thesis ..
  qed
qed

lemma clean_elems_canon: "canon r out \<Longrightarrow> canon r (clean_elems r out es)"
proof (induction r out es rule: clean_elems.induct)
  case (1 rooted out)
  then show ?case by simp
next
  case (2 rooted out e es)
  show ?case
  proof (cases "e = [] \<or> e = ''.''")
    case True
    with 2 show ?thesis by auto
  next
    case False
    note real = this
    show ?thesis
    proof (cases "e = ''..''")
      case False
      with real 2 show ?thesis by (simp add: canon_snoc_real)
    next
      case True
      note dd = this
      show ?thesis
      proof (cases "out \<noteq> [] \<and> last out \<noteq> ''..''")
        case True
        with dd 2 show ?thesis by (simp add: canon_butlast)
      next
        case False
        note nopop = this
        show ?thesis
        proof (cases rooted)
          case True
          with nopop dd 2 show ?thesis by auto
        next
          case False
          then have "canon rooted (out @ [''..''])"
            using nopop "2.prems" canon_snoc_dotdot [of out] by auto
          with False nopop dd 2 show ?thesis by auto
        qed
      qed
    qed
  qed
qed

lemma clean_elems_id: "canon r (out @ es) \<Longrightarrow> clean_elems r out es = out @ es"
proof (induction es arbitrary: out)
  case Nil
  then show ?case by simp
next
  case (Cons e es)
  have real: "e \<noteq> [] \<and> e \<noteq> ''.''" using Cons.prems canon_real [of r "out @ e # es" e] by simp
  have IH: "clean_elems r (out @ [e]) es = (out @ [e]) @ es"
    using Cons.IH [of "out @ [e]"] Cons.prems by simp
  show ?case
  proof (cases "e = ''..''")
    case False
    with real IH show ?thesis by simp
  next
    case True
    with Cons.prems have "\<not> r \<and> (\<forall>x \<in> set out. x = ''..'')"
      using canon_dotdot_prefix by blast
    then have "\<not> r" and "\<not> (out \<noteq> [] \<and> last out \<noteq> ''..'')"
      using last_in_set by auto
    with True IH show ?thesis by auto
  qed
qed

lemma clean_elems_slashfree:
  "slashfree out \<Longrightarrow> slashfree es \<Longrightarrow> slashfree (clean_elems r out es)"
proof (induction r out es rule: clean_elems.induct)
  case (1 rooted out)
  then show ?case by simp
next
  case (2 rooted out e es)
  have b: "slashfree (butlast out)"
    using "2.prems"(1) unfolding slashfree_def by (auto dest: in_set_butlastD)
  have d: "slashfree (out @ [''..''])" "slashfree (out @ [e])" "slashfree es"
    using "2.prems" unfolding slashfree_def by auto
  from 2 b d show ?case by auto
qed


lemma split_elems_sep_Cons: "split_elems (CHR ''/'' # s) = [] # split_elems s"
  by simp

lemma join_elems_not_Nil:
  "es \<noteq> [] \<Longrightarrow> [] \<notin> set es \<Longrightarrow> join_elems es \<noteq> []"
  by (induction es rule: join_elems.induct) auto

lemma hd_join_elems:
  "es \<noteq> [] \<Longrightarrow> hd es \<noteq> [] \<Longrightarrow> hd (join_elems es) = hd (hd es)"
  by (induction es rule: join_elems.induct) auto

lemma canon_no_empty: "canon r xs \<Longrightarrow> [] \<notin> set xs"
  using canon_real by blast

lemma render_not_Nil: "canon r out \<Longrightarrow> render r out \<noteq> []"
  by (auto simp: render_def join_elems_not_Nil canon_no_empty)

lemma render_rooted:
  assumes "canon r out" "slashfree out"
  shows "(hd (render r out) = CHR ''/'') = r"
proof (cases r)
  case True
  then show ?thesis by (simp add: render_def)
next
  case False
  show ?thesis
  proof (cases out)
    case Nil
    with False show ?thesis by (simp add: render_def)
  next
    case (Cons e es)
    with assms have e: "e \<noteq> []" "CHR ''/'' \<notin> set e" by (auto simp: slashfree_def)
    then have "hd e \<noteq> CHR ''/''" by (cases e) auto
    with False Cons e show ?thesis by (simp add: render_def hd_join_elems)
  qed
qed

lemma clean_elems_split_render:
  assumes "canon r out" "slashfree out"
  shows "clean_elems r [] (split_elems (render r out)) = out"
proof (cases "out = []")
  case True
  then show ?thesis by (cases r) (simp_all add: render_def)
next
  case False
  then have s: "split_elems (join_elems out) = out"
    using assms by (simp add: split_join_elems)
  have "clean_elems r [] out = out" using assms clean_elems_id [of r "[]" out] by simp
  with s False show ?thesis by (cases r) (simp_all add: render_def)
qed

lemma Clean_render:
  assumes "canon r out" "slashfree out"
  shows "Clean (render r out) = render r out"
proof -
  have "Clean (render r out)
      = render (hd (render r out) = CHR ''/'')
          (clean_elems (hd (render r out) = CHR ''/'') [] (split_elems (render r out)))"
    using render_not_Nil [OF assms(1)] by (simp add: Clean_def render_def Let_def)
  then show ?thesis
    using render_rooted [OF assms] clean_elems_split_render [OF assms] by simp
qed

lemma Clean_is_render:
  "\<exists>out. canon (x \<noteq> [] \<and> hd x = CHR ''/'') out \<and> slashfree out
      \<and> Clean x = render (x \<noteq> [] \<and> hd x = CHR ''/'') out
      \<and> length out \<le> depth x"
proof (cases "x = []")
  case True
  then have "Clean x = render False []" by (simp add: Clean_def render_def)
  with True show ?thesis by (intro exI [of _ "[]"]) (simp add: slashfree_def)
next
  case False
  let ?r = "hd x = CHR ''/''"
  let ?out = "clean_elems ?r [] (split_elems x)"
  have c: "canon ?r ?out" by (rule clean_elems_canon) simp
  have f: "slashfree ?out"
    by (rule clean_elems_slashfree) (simp_all add: slashfree_def split_elems_slashfree [unfolded slashfree_def])
  have e: "Clean x = render ?r ?out" using False by (simp add: Clean_def render_def Let_def)
  have l: "length (clean_elems r out es)
             \<le> length out + length (filter (\<lambda>e. e \<noteq> [] \<and> e \<noteq> ''.'') es)" for r out es
    by (induction r out es rule: clean_elems.induct) auto
  have "length ?out \<le> depth x" using l [of ?r "[]" "split_elems x"] by (simp add: depth_def)
  with c f e False show ?thesis by auto
qed

lemma dir_prefix_snoc_sep: "dir_prefix (s @ ''/'') = s @ ''/''"
  by (simp add: dir_prefix_def)

lemma dir_prefix_append_no_sep:
  assumes "CHR ''/'' \<notin> set e"
  shows "dir_prefix (s @ e) = dir_prefix s"
proof -
  have "dropWhile (\<lambda>c. c \<noteq> CHR ''/'') (rev e @ rev s)
          = dropWhile (\<lambda>c. c \<noteq> CHR ''/'') (rev s)"
    by (rule dropWhile_append2) (use assms in auto)
  then show ?thesis by (simp only: dir_prefix_def rev_append)
qed

lemma join_elems_snoc:
  "join_elems (ys @ [e]) = (if ys = [] then e else join_elems ys @ ''/'' @ e)"
  by (induction ys rule: join_elems.induct) auto

lemma Dir_render:
  assumes c: "canon r out" and f: "slashfree out" and ne: "out \<noteq> []"
  shows "Dir (render r out) = render r (butlast out)"
proof -
  obtain ys e where out: "out = ys @ [e]" using ne by (cases out rule: rev_cases) auto
  have e: "CHR ''/'' \<notin> set e" using f out by (simp add: slashfree_def)
  have cys: "canon r ys" using canon_butlast [OF c] out by simp
  have fys: "slashfree ys" using f out by (simp add: slashfree_def)
  show ?thesis
  proof (cases "ys = []")
    case True
    show ?thesis
    proof (cases r)
      case True
      have "dir_prefix (''/'' @ e) = dir_prefix ''/''"
        by (rule dir_prefix_append_no_sep [OF e])
      then have "dir_prefix (''/'' @ e) = ''/''"
        by (simp add: dir_prefix_def)
      with True \<open>ys = []\<close> out show ?thesis
        by (simp add: Dir_def render_def Clean_def)
    next
      case False
      have "dir_prefix ([] @ e) = dir_prefix []"
        by (rule dir_prefix_append_no_sep [OF e])
      then have "dir_prefix e = []"
        by (simp add: dir_prefix_def)
      with False \<open>ys = []\<close> out show ?thesis
        by (simp add: Dir_def render_def Clean_def)
    qed
  next
    case False
    have r: "render r out = (render r ys @ ''/'') @ e"
      using False out by (simp add: render_def join_elems_snoc)
    have "dir_prefix (render r out) = render r ys @ ''/''"
      unfolding r by (simp only: dir_prefix_append_no_sep [OF e] dir_prefix_snoc_sep)
    then have "Dir (render r out) = Clean (render r ys)"
      using render_not_Nil [OF cys] by (simp add: Dir_def Clean_snoc_sep)
    then show ?thesis using Clean_render [OF cys fys] out by simp
  qed
qed

lemma Dir_render_Nil: "Dir (render r []) = render r []"
  by (cases r) (simp_all add: Dir_def dir_prefix_def render_def Clean_def)

lemma render_inject:
  assumes "canon r out" "slashfree out" "canon r out'" "slashfree out'"
    and "render r out = render r out'"
  shows "out = out'"
proof -
  have "out = clean_elems r [] (split_elems (render r out))"
    by (simp only: clean_elems_split_render [OF assms(1,2)])
  also have "\<dots> = clean_elems r [] (split_elems (render r out'))"
    by (simp only: assms(5))
  also have "\<dots> = out'"
    by (rule clean_elems_split_render [OF assms(3,4)])
  finally show ?thesis .
qed

lemma depth_render:
  assumes "canon r out" "slashfree out"
  shows "depth (render r out) = length out"
proof -
  have all: "filter (\<lambda>e. e \<noteq> [] \<and> e \<noteq> ''.'') out = out"
    using canon_real [OF assms(1)] by (simp add: filter_id_conv)
  show ?thesis
  proof (cases "out = []")
    case True
    then show ?thesis by (cases r) (simp_all add: render_def depth_def)
  next
    case False
    then have "split_elems (join_elems out) = out" using assms by (simp add: split_join_elems)
    with False all show ?thesis by (cases r) (simp_all add: render_def depth_def)
  qed
qed


lemma ancestors_fixed: "Dir d = d \<Longrightarrow> ancestors d = [d]"
  by (subst ancestors.simps) simp

lemma ancestors_step: "Dir d \<noteq> d \<Longrightarrow> ancestors d = d # ancestors (Dir d)"
  by (subst ancestors.simps) simp

lemma ancestors_not_Nil: "ancestors d \<noteq> []"
  by (subst ancestors.simps) simp


lemma ancestors_render:
  "canon r out \<Longrightarrow> slashfree out \<Longrightarrow>
     length (ancestors (render r out)) = Suc (length out)
     \<and> last (ancestors (render r out)) = render r []"
proof (induction out rule: rev_induct)
  case Nil
  then show ?case by (simp add: ancestors_fixed Dir_render_Nil)
next
  case (snoc e ys)
  have cys: "canon r ys" using canon_butlast [OF snoc.prems(1)] by simp
  have fys: "slashfree ys" using snoc.prems(2) by (simp add: slashfree_def)
  have D: "Dir (render r (ys @ [e])) = render r ys"
    using Dir_render [OF snoc.prems] by simp
  have "render r ys \<noteq> render r (ys @ [e])"
    using render_inject [OF cys fys snoc.prems] by auto
  then have "ancestors (render r (ys @ [e])) = render r (ys @ [e]) # ancestors (render r ys)"
    using D ancestors_step [of "render r (ys @ [e])"] by simp
  then show ?case using snoc.IH [OF cys fys] ancestors_not_Nil by simp
qed

lemma dir_prefix_decomp: "\<exists>t. d = dir_prefix d @ t \<and> CHR ''/'' \<notin> set t"
proof -
  let ?t = "rev (takeWhile (\<lambda>c. c \<noteq> CHR ''/'') (rev d))"
  have "rev (rev d) = rev (takeWhile (\<lambda>c. c \<noteq> CHR ''/'') (rev d)
                           @ dropWhile (\<lambda>c. c \<noteq> CHR ''/'') (rev d))"
    by simp
  then have "d = dir_prefix d @ ?t"
    by (simp only: rev_append rev_rev_ident dir_prefix_def)
  moreover have "CHR ''/'' \<notin> set ?t"
    using set_takeWhileD [of "CHR ''/''" "\<lambda>c. c \<noteq> CHR ''/''" "rev d"] by auto
  ultimately show ?thesis by blast
qed

lemma dir_prefix_rooted:
  "(dir_prefix d \<noteq> [] \<and> hd (dir_prefix d) = CHR ''/'') = (d \<noteq> [] \<and> hd d = CHR ''/'')"
proof -
  obtain t where t: "d = dir_prefix d @ t" "CHR ''/'' \<notin> set t"
    using dir_prefix_decomp by blast
  show ?thesis
  proof (cases "dir_prefix d = []")
    case True
    with t have "CHR ''/'' \<notin> set d" by simp
    then have "d \<noteq> [] \<longrightarrow> hd d \<noteq> CHR ''/''" by (cases d) auto
    with True show ?thesis by auto
  next
    case False
    then have "hd d = hd (dir_prefix d)" by (subst t(1)) simp
    moreover have "d \<noteq> []" using False t(1) by auto
    ultimately show ?thesis using False by simp
  qed
qed

lemma depth_dir_prefix: "depth (dir_prefix d) \<le> depth d"
proof -
  obtain t where t: "d = dir_prefix d @ t" "CHR ''/'' \<notin> set t"
    using dir_prefix_decomp by blast
  from dir_prefix_cases [of d] show ?thesis
  proof
    assume "dir_prefix d = []"
    then show ?thesis by (simp add: depth_def)
  next
    assume "\<exists>y. dir_prefix d = y @ ''/''"
    then obtain y where y: "dir_prefix d = y @ ''/''" by blast
    have "d = y @ ''/'' @ t" by (subst t(1)) (simp add: y)
    then have "split_elems d = split_elems y @ [t]"
      using split_elems_sep_append [of y t] split_elems_no_sep [OF t(2)] by simp
    then show ?thesis by (simp add: y depth_def split_elems_snoc_sep)
  qed
qed

lemma Dir_is_render:
  "\<exists>out. canon (d \<noteq> [] \<and> hd d = CHR ''/'') out \<and> slashfree out
      \<and> Dir d = render (d \<noteq> [] \<and> hd d = CHR ''/'') out
      \<and> length out \<le> depth d"
proof -
  obtain out where
    "canon (dir_prefix d \<noteq> [] \<and> hd (dir_prefix d) = CHR ''/'') out" "slashfree out"
    "Clean (dir_prefix d) = render (dir_prefix d \<noteq> [] \<and> hd (dir_prefix d) = CHR ''/'') out"
    "length out \<le> depth (dir_prefix d)"
    using Clean_is_render [of "dir_prefix d"] by blast
  then show ?thesis
    using depth_dir_prefix [of d] unfolding dir_prefix_rooted Dir_def
    by (intro exI [of _ out]) simp
qed

lemma length_ancestors_Dir: "length (ancestors (Dir x)) = Suc (depth (Dir x))"
proof -
  obtain out where o: "canon (x \<noteq> [] \<and> hd x = CHR ''/'') out" "slashfree out"
    "Dir x = render (x \<noteq> [] \<and> hd x = CHR ''/'') out"
    using Dir_is_render by blast
  then show ?thesis using ancestors_render [OF o(1,2)] depth_render [OF o(1,2)] by simp
qed

lemma length_ancestors_le: "length (ancestors d) \<le> depth d + 2"
proof (cases "Dir d = d")
  case True
  then show ?thesis by (simp add: ancestors_fixed)
next
  case False
  obtain out where o: "canon (d \<noteq> [] \<and> hd d = CHR ''/'') out" "slashfree out"
    "Dir d = render (d \<noteq> [] \<and> hd d = CHR ''/'') out" "length out \<le> depth d"
    using Dir_is_render by blast
  have "length (ancestors d) = Suc (length (ancestors (Dir d)))"
    using False by (simp add: ancestors_step)
  then show ?thesis using ancestors_render [OF o(1,2)] o(3,4) by simp
qed

lemma Dir_fixed_rooted:
  assumes "d \<noteq> []" "hd d = CHR ''/''"
  shows "Dir d = d \<longleftrightarrow> d = ''/''"
proof
  assume fixed: "Dir d = d"
  obtain out where o: "canon True out" "slashfree out" "Dir d = render True out"
    using Dir_is_render [of d] assms by auto
  have "out = []"
  proof (rule ccontr)
    assume ne: "out \<noteq> []"
    have "Dir (render True out) = render True (butlast out)" by (rule Dir_render [OF o(1,2) ne])
    then have "render True (butlast out) = render True out" using fixed o(3) by simp
    then have "butlast out = out"
      using render_inject [OF canon_butlast [OF o(1)] _ o(1,2)] o(2)
      by (auto simp: slashfree_def dest: in_set_butlastD)
    then have "length (butlast out) = length out" by simp
    then have "length out - 1 = length out" by (simp only: length_butlast)
    with ne show False by (cases out) simp_all
  qed
  with o(3) fixed show "d = ''/''" by (simp add: render_def)
next
  assume "d = ''/''"
  then show "Dir d = d" using Dir_render_Nil [of True] by (simp add: render_def)
qed


lemma findEnvFilePath_loop_ancestors:
  "findEnvFilePath_loop w d =
     (case find (\<lambda>a. os_Stat w (env_in a)) (ancestors d) of
        None \<Rightarrow> ([], map env_in (ancestors d))
      | Some a \<Rightarrow>
          (env_in a, map env_in (takeWhile (\<lambda>a. \<not> os_Stat w (env_in a)) (ancestors d) @ [a])))"
proof (induction w d rule: findEnvFilePath_loop.induct)
  case (1 w dir)
  show ?case
  proof (cases "os_Stat w (env_in dir)")
    case True
    then have "findEnvFilePath_loop w dir = (env_in dir, [env_in dir])"
      by (subst findEnvFilePath_loop.simps) (simp add: env_in_def Let_def)
    moreover have "find (\<lambda>a. os_Stat w (env_in a)) (ancestors dir) = Some dir"
      "takeWhile (\<lambda>a. \<not> os_Stat w (env_in a)) (ancestors dir) = []"
      using True by (subst ancestors.simps, simp)+
    ultimately show ?thesis by simp
  next
    case False
    note miss = this
    show ?thesis
    proof (cases "Dir dir = dir")
      case True
      then have "findEnvFilePath_loop w dir = ([], [env_in dir])"
        using miss by (subst findEnvFilePath_loop.simps) (simp add: env_in_def Let_def)
      then show ?thesis using miss True by (simp add: ancestors_fixed)
    next
      case False
      have IH: "findEnvFilePath_loop w (Dir dir) =
        (case find (\<lambda>a. os_Stat w (env_in a)) (ancestors (Dir dir)) of
           None \<Rightarrow> ([], map env_in (ancestors (Dir dir)))
         | Some a \<Rightarrow>
            (env_in a,
             map env_in (takeWhile (\<lambda>a. \<not> os_Stat w (env_in a)) (ancestors (Dir dir)) @ [a])))"
        using "1.IH" miss False by (simp add: env_in_def Let_def)
      have "findEnvFilePath_loop w dir =
          (fst (findEnvFilePath_loop w (Dir dir)),
           env_in dir # snd (findEnvFilePath_loop w (Dir dir)))"
        using miss False
        by (subst findEnvFilePath_loop.simps) (simp add: env_in_def Let_def split: prod.splits)
      then show ?thesis
        using miss False unfolding IH ancestors_step [OF False]
        by (simp split: option.splits)
    qed
  qed
qed







lemma length_probes:
  "snd (findEnvFilePath_loop w d)
     = map env_in (take (length (snd (findEnvFilePath_loop w d))) (ancestors d))
   \<and> 1 \<le> length (snd (findEnvFilePath_loop w d))
   \<and> length (snd (findEnvFilePath_loop w d)) \<le> length (ancestors d)"
proof (cases "find (\<lambda>a. os_Stat w (env_in a)) (ancestors d)")
  case None
  then show ?thesis
    using ancestors_not_Nil [of d]
    by (cases "ancestors d") (simp_all add: findEnvFilePath_loop_ancestors)
next
  case (Some a)
  let ?P = "\<lambda>a. os_Stat w (env_in a)"
  let ?misses = "takeWhile (\<lambda>a. \<not> ?P a) (ancestors d)"
  from Some obtain i where i: "i < length (ancestors d)" "?P (ancestors d ! i)"
    "a = ancestors d ! i" "\<forall>j<i. \<not> ?P (ancestors d ! j)"
    unfolding find_Some_iff by blast
  have m: "?misses = take i (ancestors d)"
    using i by (intro takeWhile_eq_take_P_nth) auto
  then have "?misses @ [a] = take (Suc i) (ancestors d)"
    using i by (simp add: take_Suc_conv_app_nth)
  moreover have "length (?misses @ [a]) = Suc i" using m i by simp
  ultimately show ?thesis
    using Some i(1) by (simp add: findEnvFilePath_loop_ancestors)
qed














text \<open>
  C9. The upward search ends for every starting directory. An iteration that finds
  \<open>.env\<close> returns it; one that does not and stands at a directory that is its own
  parent returns the empty path; any other moves to the parent, which is strictly
  smaller in the measure of the walk and no deeper. The search probes at least one
  path and at most the depth of the starting directory plus two; from a cleaned
  directory, as \<open>loadEnv\<close> passes it, at most its depth plus one: each level once and
  the root. For an absolute path only the root is its own parent.
\<close>

theorem upward_search_bounded:
  "(\<exists>found probes. findEnvFilePath_loop w dir = (found, probes)
       \<and> 1 \<le> length probes \<and> length probes \<le> depth dir + 2
       \<and> probes = map env_in (take (length probes) (ancestors dir)))
   \<and> length (snd (findEnvFilePath_loop w (Dir x))) \<le> depth (Dir x) + 1
   \<and> (os_Stat w (env_in dir)
        \<longrightarrow> findEnvFilePath_loop w dir = (env_in dir, [env_in dir]))
   \<and> (\<not> os_Stat w (env_in dir) \<and> Dir dir = dir
        \<longrightarrow> findEnvFilePath_loop w dir = ([], [env_in dir]))
   \<and> (\<not> os_Stat w (env_in dir) \<and> Dir dir \<noteq> dir
        \<longrightarrow> findEnvFilePath_loop w dir =
              (fst (findEnvFilePath_loop w (Dir dir)),
               env_in dir # snd (findEnvFilePath_loop w (Dir dir)))
          \<and> dir_measure (Dir dir) < dir_measure dir
          \<and> depth (Dir dir) \<le> depth dir)
   \<and> (dir \<noteq> [] \<and> hd dir = CHR ''/'' \<longrightarrow> (Dir dir = dir) = (dir = ''/''))
   \<and> length (ancestors dir) \<le> depth dir + 2
   \<and> length (ancestors (Dir x)) = depth (Dir x) + 1"
  (is "?returns \<and> ?clean \<and> ?found \<and> ?exit \<and> ?up \<and> ?root \<and> ?len \<and> ?len_clean")
proof -
  note p = length_probes [of w dir]
  have returns: ?returns
  proof (intro exI conjI)
    show "findEnvFilePath_loop w dir
            = (fst (findEnvFilePath_loop w dir), snd (findEnvFilePath_loop w dir))"
      by simp
    show "1 \<le> length (snd (findEnvFilePath_loop w dir))" using p by simp
    show "length (snd (findEnvFilePath_loop w dir)) \<le> depth dir + 2"
      using p length_ancestors_le [of dir] by linarith
    show "snd (findEnvFilePath_loop w dir)
            = map env_in (take (length (snd (findEnvFilePath_loop w dir))) (ancestors dir))"
      using p by blast
  qed
  have clean: ?clean
    using length_probes [of w "Dir x"] length_ancestors_Dir [of x] by linarith
  have found: ?found
    by (subst findEnvFilePath_loop.simps) (simp add: env_in_def Let_def)
  have exit: ?exit
    by (subst findEnvFilePath_loop.simps) (simp add: env_in_def Let_def)
  have up: ?up
  proof (intro impI, elim conjE)
    assume miss: "\<not> os_Stat w (env_in dir)" and step: "Dir dir \<noteq> dir"
    have "findEnvFilePath_loop w dir =
              (fst (findEnvFilePath_loop w (Dir dir)),
               env_in dir # snd (findEnvFilePath_loop w (Dir dir)))"
      using miss step
      by (subst findEnvFilePath_loop.simps) (simp add: env_in_def Let_def split: prod.splits)
    moreover have "dir_measure (Dir dir) < dir_measure dir" using step by (rule Dir_measure)
    moreover have "depth (Dir dir) \<le> depth dir"
    proof -
      obtain out where o: "canon (dir \<noteq> [] \<and> hd dir = CHR ''/'') out" "slashfree out"
        "Dir dir = render (dir \<noteq> [] \<and> hd dir = CHR ''/'') out" "length out \<le> depth dir"
        using Dir_is_render by blast
      then show ?thesis using depth_render [OF o(1,2)] by simp
    qed
    ultimately show "findEnvFilePath_loop w dir =
              (fst (findEnvFilePath_loop w (Dir dir)),
               env_in dir # snd (findEnvFilePath_loop w (Dir dir)))
          \<and> dir_measure (Dir dir) < dir_measure dir
          \<and> depth (Dir dir) \<le> depth dir"
      by blast
  qed
  have root: ?root using Dir_fixed_rooted by blast
  have len: ?len by (rule length_ancestors_le)
  have len_clean: ?len_clean using length_ancestors_Dir by simp
  from returns clean found exit up root len len_clean show ?thesis by blast
qed


theorem upward_search_bounded_witness:
  "findEnvFilePath_loop world_bare ''/go/pkg/configutil''
     = ([], [''/go/pkg/configutil/.env'', ''/go/pkg/.env'', ''/go/.env'', ''/.env''])
   \<and> depth ''/go/pkg/configutil'' = 3
   \<and> Dir ''/go/pkg/configutil/configutil.go'' = ''/go/pkg/configutil''
   \<and> length (snd (findEnvFilePath_loop world_bare (Dir ''/go/pkg/configutil/configutil.go'')))
       \<le> depth (Dir ''/go/pkg/configutil/configutil.go'') + 1"
proof -
  have run: "findEnvFilePath_loop world_bare ''/go/pkg/configutil''
     = ([], [''/go/pkg/configutil/.env'', ''/go/pkg/.env'', ''/go/.env'', ''/.env''])"
    by code_simp
  have d: "depth ''/go/pkg/configutil'' = 3" by code_simp
  have dir: "Dir ''/go/pkg/configutil/configutil.go'' = ''/go/pkg/configutil''" by code_simp
  from upward_search_bounded [where w = world_bare and x = "''/go/pkg/configutil/configutil.go''"]
  have "length (snd (findEnvFilePath_loop world_bare (Dir ''/go/pkg/configutil/configutil.go'')))
       \<le> depth (Dir ''/go/pkg/configutil/configutil.go'') + 1"
    by blast
  with run d dir show ?thesis by simp
qed

end
